theory Spec2Isabelle
  imports Complex_Main "HOL-Library.Multiset"
begin

section \<open>JSON values, JavaScript objects and jsonb documents\<close>

text \<open>
  The adapter of \<^verbatim>\<open>src/database/postgres/hash.js\<close> stores, for every key, one JSON
  object in the \<^verbatim>\<open>jsonb\<close> column \<^verbatim>\<open>"data"\<close> of the table \<^verbatim>\<open>"legacy_hash"\<close>.
  A JSON number is a PostgreSQL \<^verbatim>\<open>NUMERIC\<close>, an exact decimal, modelled as a rational.
\<close>

datatype json =
    JNull
  | JBool bool
  | JNum rat
  | JStr string
  | JArr "json list"
  | JObj "(string \<times> json) list"

text \<open>
  A JavaScript object is the list of its own properties in insertion order (names are
  unique in a real object; where the list repeats a name the leftmost entry is the
  property). Property access is access to own properties, and \<^verbatim>\<open>hasOwnProperty\<close> is the
  built-in method.
\<close>

type_synonym jsobject = "(string \<times> json) list"

definition hasOwnProperty :: "jsobject \<Rightarrow> string \<Rightarrow> bool" where
  "hasOwnProperty obj f \<longleftrightarrow> f \<in> set (map fst obj)"

definition delete_property :: "jsobject \<Rightarrow> string \<Rightarrow> jsobject" where
  "delete_property obj f = filter (\<lambda>p. fst p \<noteq> f) obj"

fun set_property :: "jsobject \<Rightarrow> string \<Rightarrow> json \<Rightarrow> jsobject" where
  "set_property [] f v = [(f, v)]"
| "set_property ((g, w) # obj) f v =
     (if g = f then (g, v) # obj else (g, w) # set_property obj f v)"

text \<open>
  A \<^verbatim>\<open>jsonb\<close> object keeps one value per key and stores its keys ordered by length and
  then bytewise; \<^verbatim>\<open>jsonb_object_keys\<close> and \<^verbatim>\<open>jsonb_each\<close> enumerate in that order.
  \<open>jsonb_put\<close> is the write of one key that \<^verbatim>\<open>jsonb_set(data, ARRAY[f], v)\<close>,
  \<^verbatim>\<open>||\<close>, \<^verbatim>\<open>jsonb_build_object\<close> and the \<^verbatim>\<open>jsonb\<close> input conversion all come down to.
  Values are kept as they were written: no operation of the adapter looks inside one.
\<close>

type_synonym jsonb = "(string \<times> json) list"

fun bytes_less :: "string \<Rightarrow> string \<Rightarrow> bool" where
  "bytes_less [] [] = False"
| "bytes_less [] (y # ys) = True"
| "bytes_less (x # xs) [] = False"
| "bytes_less (x # xs) (y # ys) =
     ((of_char x :: nat) < of_char y \<or> (x = y \<and> bytes_less xs ys))"

definition jsonb_key_less :: "string \<Rightarrow> string \<Rightarrow> bool" where
  "jsonb_key_less a b \<longleftrightarrow>
     length a < length b \<or> (length a = length b \<and> bytes_less a b)"

fun jsonb_put :: "string \<Rightarrow> json \<Rightarrow> jsonb \<Rightarrow> jsonb" where
  "jsonb_put k v [] = [(k, v)]"
| "jsonb_put k v ((k', v') # d) =
     (if k = k' then (k, v) # d
      else if jsonb_key_less k k' then (k, v) # (k', v') # d
      else (k', v') # jsonb_put k v d)"

definition jsonb_build_object :: "string \<Rightarrow> json \<Rightarrow> jsonb" where
  "jsonb_build_object f v = jsonb_put f v []"

text \<open>\<^verbatim>\<open>JSON.stringify(data)\<close> read back by \<^verbatim>\<open>$2::TEXT::JSONB\<close>.\<close>

definition jsonb_of_object :: "jsobject \<Rightarrow> jsonb" where
  "jsonb_of_object obj = foldr (\<lambda>p d. jsonb_put (fst p) (snd p) d) obj []"

text \<open>\<^verbatim>\<open>a || b\<close> on two objects: the keys of \<open>b\<close> are written over \<open>a\<close>.\<close>

definition jsonb_concat :: "jsonb \<Rightarrow> jsonb \<Rightarrow> jsonb" where
  "jsonb_concat a b = foldr (\<lambda>p d. jsonb_put (fst p) (snd p) d) b a"

text \<open>\<^verbatim>\<open>data ? f\<close>, \<^verbatim>\<open>data -> f\<close> and \<^verbatim>\<open>jsonb_object_keys(data)\<close>.\<close>

definition jsonb_exists :: "jsonb \<Rightarrow> string \<Rightarrow> bool" where
  "jsonb_exists d f \<longleftrightarrow> f \<in> set (map fst d)"

definition jsonb_get :: "jsonb \<Rightarrow> string \<Rightarrow> json option" where
  "jsonb_get d f = map_of d f"

definition jsonb_object_keys :: "jsonb \<Rightarrow> string list" where
  "jsonb_object_keys d = map fst d"

text \<open>
  \<^verbatim>\<open>data ->> f IS NULL\<close>: the text of a field is the SQL \<^verbatim>\<open>NULL\<close> when the field is
  missing and when it holds the JSON \<^verbatim>\<open>null\<close>, and a text otherwise.
\<close>

fun text_is_null :: "json option \<Rightarrow> bool" where
  "text_is_null None = True"
| "text_is_null (Some JNull) = True"
| "text_is_null (Some v) = False"

text \<open>
  \<^verbatim>\<open>jsonb_object_agg(k, v)\<close> over rows \<open>(k, v)\<close>, \<open>v\<close> possibly the SQL \<^verbatim>\<open>NULL\<close>: an
  aggregate over no row is \<^verbatim>\<open>NULL\<close>; a \<^verbatim>\<open>NULL\<close> value becomes the JSON \<^verbatim>\<open>null\<close>;
  of two rows with one key the later one is kept.
\<close>

definition jsonb_object_agg :: "(string \<times> json option) list \<Rightarrow> jsonb option" where
  "jsonb_object_agg rows =
     (if rows = [] then None
      else Some (foldl (\<lambda>d r. jsonb_put (fst r) (case snd r of None \<Rightarrow> JNull | Some v \<Rightarrow> v) d)
                   [] rows))"

section \<open>The two tables\<close>

text \<open>
  Modelled from the spec: the schema is not part of the sources. The type registry
  \<^verbatim>\<open>"legacy_object_live"\<close> holds at most one live type per key; \<^verbatim>\<open>"legacy_hash"\<close> holds
  at most one document per key, and its column \<^verbatim>\<open>"type"\<close>, which no statement of the
  adapter sets, is \<^verbatim>\<open>'hash'\<close> in every row.
\<close>

datatype object_type = Hash | Zset | SetT | ListT | StringT

record database =
  legacy_object_live :: "string \<Rightarrow> object_type option"
  legacy_hash :: "string \<Rightarrow> jsonb option"

datatype error = TypeConflict | CardinalityViolation | InvalidNumeric | NotNullViolation

text \<open>\<^verbatim>\<open>!key\<close> for a key that is a string, or \<^verbatim>\<open>undefined\<close>/\<^verbatim>\<open>null\<close> (\<open>None\<close>).\<close>

definition falsy :: "string option \<Rightarrow> bool" where
  "falsy key \<longleftrightarrow> (case key of None \<Rightarrow> True | Some k \<Rightarrow> k = [])"

section \<open>Read operations\<close>

text \<open>
  The rows of
  \<^verbatim>\<open>"legacy_object_live" o INNER JOIN "legacy_hash" h ON o."_key" = h."_key" AND o."type" = h."type" WHERE o."_key" = $1\<close>:
  the document of the key when the key is registered as a hash, no row otherwise.
\<close>

definition hash_rows :: "database \<Rightarrow> string \<Rightarrow> jsonb list" where
  "hash_rows db k =
     (case legacy_object_live db k of
        None \<Rightarrow> []
      | Some t \<Rightarrow> (case legacy_hash db k of
                     None \<Rightarrow> []
                   | Some d \<Rightarrow> if t = Hash then [d] else []))"

text \<open>\<open>None\<close> is the \<^verbatim>\<open>null\<close> that \<^verbatim>\<open>getObject\<close> returns.\<close>

definition getObject :: "string option \<Rightarrow> database \<Rightarrow> jsonb option" where
  "getObject key db =
     (case key of
        None \<Rightarrow> None
      | Some k \<Rightarrow> if k = [] then None
                  else (case hash_rows db k of [] \<Rightarrow> None | d # rows \<Rightarrow> Some d))"

text \<open>
  \<^verbatim>\<open>getObjects\<close>: \<^verbatim>\<open>UNNEST($1) WITH ORDINALITY k("_key", i)\<close> tags every element with
  its position from 1; the two left outer joins give each tagged element one row, with
  \<^verbatim>\<open>h."data"\<close> or \<^verbatim>\<open>NULL\<close>; the joined rows come in whatever order the executor produces
  (\<open>phys\<close>, any rearrangement) and \<^verbatim>\<open>ORDER BY k.i ASC\<close> sorts them.
  \<open>None\<close> for \<open>keys\<close> is a value that is not an array.
\<close>

definition with_ordinality :: "'a list \<Rightarrow> ('a \<times> nat) list" where
  "with_ordinality xs = zip xs [1..<Suc (length xs)]"

definition left_join_hash :: "database \<Rightarrow> string \<Rightarrow> jsonb option" where
  "left_join_hash db k = (case hash_rows db k of [] \<Rightarrow> None | d # rows \<Rightarrow> Some d)"

definition getObjects ::
  "((nat \<times> jsonb option) list \<Rightarrow> (nat \<times> jsonb option) list) \<Rightarrow> string list option \<Rightarrow>
   database \<Rightarrow> jsonb option list" where
  "getObjects phys keys db =
     (case keys of
        None \<Rightarrow> []
      | Some ks \<Rightarrow>
          if ks = [] then []
          else map snd (sort_key fst
                 (phys (map (\<lambda>ki. (snd ki, left_join_hash db (fst ki))) (with_ordinality ks)))))"

text \<open>
  \<^verbatim>\<open>getObjectFields\<close>: for each row of the key, the aggregate of the requested fields
  left-joined with \<^verbatim>\<open>jsonb_each(h."data")\<close>; without a row, an object built in
  JavaScript with every requested field set to \<^verbatim>\<open>null\<close>. The outer \<open>None\<close> is the
  \<^verbatim>\<open>null\<close> returned for a falsy key, and the \<^verbatim>\<open>NULL\<close> of the aggregate.
\<close>

definition getObjectFields :: "string option \<Rightarrow> string list \<Rightarrow> database \<Rightarrow> jsobject option" where
  "getObjectFields key flds db =
     (case key of
        None \<Rightarrow> None
      | Some k \<Rightarrow>
          if k = [] then None
          else (case map (\<lambda>d. jsonb_object_agg (map (\<lambda>f. (f, jsonb_get d f)) flds))
                       (hash_rows db k) of
                  r # rows \<Rightarrow> r
                | [] \<Rightarrow> Some (foldl (\<lambda>obj f. set_property obj f JNull) [] flds)))"

text \<open>\<open>None\<close> is the \<^verbatim>\<open>undefined\<close> that \<^verbatim>\<open>getObjectKeys\<close> returns for a falsy key.\<close>

definition getObjectKeys :: "string option \<Rightarrow> database \<Rightarrow> string list option" where
  "getObjectKeys key db =
     (case key of
        None \<Rightarrow> None
      | Some k \<Rightarrow> if k = [] then None
                  else Some (case map jsonb_object_keys (hash_rows db k) of
                               [] \<Rightarrow> []
                             | ks # rows \<Rightarrow> ks))"

text \<open>
  \<^verbatim>\<open>isObjectField\<close> and \<^verbatim>\<open>isObjectFields\<close> answer through their callback; \<open>None\<close> is the
  \<^verbatim>\<open>callback()\<close> without a result that a falsy key gets. \<^verbatim>\<open>isObjectFields\<close> calls
  \<^verbatim>\<open>module.getObjectFields\<close> in callback style, through the wrapper that the repository puts
  around its asynchronous functions (\<^verbatim>\<open>require('../promisify')\<close>); the call is modelled
  as the call of the function, and the database errors that the callbacks pass on are
  not modelled for the reads.
\<close>

definition isObjectField :: "string option \<Rightarrow> string \<Rightarrow> database \<Rightarrow> bool option" where
  "isObjectField key field db =
     (case key of
        None \<Rightarrow> None
      | Some k \<Rightarrow>
          if k = [] then None
          else (case map (\<lambda>d. jsonb_exists d field \<and> \<not> text_is_null (jsonb_get d field))
                       (hash_rows db k) of
                  b # rows \<Rightarrow> Some b
                | [] \<Rightarrow> Some False))"

definition isObjectFields :: "string option \<Rightarrow> string list \<Rightarrow> database \<Rightarrow> bool list option" where
  "isObjectFields key flds db =
     (case key of
        None \<Rightarrow> None
      | Some k \<Rightarrow>
          if k = [] then None
          else (case getObjectFields key flds db of
                  None \<Rightarrow> Some (map (\<lambda>field. False) flds)
                | Some data \<Rightarrow>
                    Some (map (\<lambda>field. hasOwnProperty data field \<and> map_of data field \<noteq> Some JNull)
                            flds)))"

section \<open>The collaborators of the write operations\<close>

text \<open>
  Modelled from the spec: \<^verbatim>\<open>helpers.ensureLegacyObjectType\<close> and
  \<^verbatim>\<open>helpers.ensureLegacyObjectsType\<close> are not part of the sources. The registry
  contract is \<^verbatim>\<open>ensureType(key_or_keys, "hash") -> Ok | TypeConflict\<close>: a registration
  is created lazily on the first write to a key and never changed in place, and a key
  registered under another type is an error.
\<close>

definition ensureLegacyObjectType :: "database \<Rightarrow> string \<Rightarrow> object_type \<Rightarrow> error + database" where
  "ensureLegacyObjectType db k t =
     (case legacy_object_live db k of
        None \<Rightarrow> Inr (db\<lparr>legacy_object_live := (legacy_object_live db)(k \<mapsto> t)\<rparr>)
      | Some t' \<Rightarrow> if t' = t then Inr db else Inl TypeConflict)"

text \<open>
  Modelled from the spec: the batch form \<^verbatim>\<open>assertBatch(keys, type)\<close> of the same
  contract, for every key of the array.
\<close>

fun ensureLegacyObjectsType :: "database \<Rightarrow> string list \<Rightarrow> object_type \<Rightarrow> error + database" where
  "ensureLegacyObjectsType db [] t = Inr db"
| "ensureLegacyObjectsType db (k # ks) t =
     (case ensureLegacyObjectType db k t of
        Inl e \<Rightarrow> Inl e
      | Inr db' \<Rightarrow> ensureLegacyObjectsType db' ks t)"

text \<open>
  Modelled from the spec: \<^verbatim>\<open>module.transaction\<close> is not part of the sources. An error
  inside the transaction aborts it, leaving no partial write visible; otherwise the
  writes are committed and the result of the body is the result.
\<close>

definition transaction ::
  "(database \<Rightarrow> error + ('a \<times> database)) \<Rightarrow> database \<Rightarrow> (error + 'a) \<times> database" where
  "transaction body db =
     (case body db of
        Inl e \<Rightarrow> (Inl e, db)
      | Inr (r, db') \<Rightarrow> (Inr r, db'))"

section \<open>Write operations\<close>

text \<open>
  The statement \<^verbatim>\<open>setObject\<close>:
  \<^verbatim>\<open>INSERT ... VALUES ($1, $2::TEXT::JSONB) ON CONFLICT ("_key") DO UPDATE SET "data" = "legacy_hash"."data" || $2::TEXT::JSONB\<close>.
\<close>

definition query_setObject :: "database \<Rightarrow> string \<Rightarrow> jsonb \<Rightarrow> database" where
  "query_setObject db k d =
     db\<lparr>legacy_hash := (legacy_hash db)
          (k \<mapsto> (case legacy_hash db k of None \<Rightarrow> d | Some old \<Rightarrow> jsonb_concat old d))\<rparr>"

text \<open>
  \<^verbatim>\<open>setObject(key, data)\<close>. The caller's object lives in a heap of objects and \<open>data\<close>
  is its address, or \<open>None\<close> for \<^verbatim>\<open>undefined\<close>/\<^verbatim>\<open>null\<close>; \<^verbatim>\<open>delete data['']\<close> changes
  the object at that address. The result is the outcome of the call, the heap and the
  database after it.
\<close>

type_synonym heap = "nat \<Rightarrow> jsobject"

definition setObject ::
  "string option \<Rightarrow> nat option \<Rightarrow> heap \<Rightarrow> database \<Rightarrow> (error + unit) \<times> heap \<times> database" where
  "setObject key data h db =
     (case key of
        None \<Rightarrow> (Inr (), h, db)
      | Some k \<Rightarrow>
          if k = [] then (Inr (), h, db)
          else (case data of
                  None \<Rightarrow> (Inr (), h, db)
                | Some a \<Rightarrow>
                    let h' = (if hasOwnProperty (h a) [] then h(a := delete_property (h a) []) else h);
                        res = transaction
                                (\<lambda>client. case ensureLegacyObjectType client k Hash of
                                     Inl e \<Rightarrow> Inl e
                                   | Inr client' \<Rightarrow>
                                       Inr ((), query_setObject client' k (jsonb_of_object (h' a))))
                                db
                    in (fst res, h', snd res)))"

text \<open>
  The statement \<^verbatim>\<open>setObjectField\<close>:
  \<^verbatim>\<open>INSERT ... VALUES ($1, jsonb_build_object($2, $3::TEXT::JSONB)) ON CONFLICT ("_key") DO UPDATE SET "data" = jsonb_set("legacy_hash"."data", ARRAY[$2], $3::TEXT::JSONB)\<close>.
\<close>

definition query_setObjectField :: "database \<Rightarrow> string \<Rightarrow> string \<Rightarrow> json \<Rightarrow> database" where
  "query_setObjectField db k f v =
     db\<lparr>legacy_hash := (legacy_hash db)
          (k \<mapsto> (case legacy_hash db k of
                    None \<Rightarrow> jsonb_build_object f v
                  | Some old \<Rightarrow> jsonb_put f v old))\<rparr>"

text \<open>
  \<^verbatim>\<open>setObjectField(key, field, value)\<close> tests \<^verbatim>\<open>!field\<close> only. A key that is
  \<^verbatim>\<open>undefined\<close> or \<^verbatim>\<open>null\<close> reaches the statements as the SQL \<^verbatim>\<open>NULL\<close>, which the
  key column rejects.
\<close>

definition setObjectField ::
  "string option \<Rightarrow> string \<Rightarrow> json \<Rightarrow> database \<Rightarrow> (error + unit) \<times> database" where
  "setObjectField key field v db =
     (if field = [] then (Inr (), db)
      else transaction
             (\<lambda>client. case key of
                  None \<Rightarrow> Inl NotNullViolation
                | Some k \<Rightarrow>
                    (case ensureLegacyObjectType client k Hash of
                       Inl e \<Rightarrow> Inl e
                     | Inr client' \<Rightarrow> Inr ((), query_setObjectField client' k field v)))
             db)"

text \<open>
  The statement \<^verbatim>\<open>deleteObjectFields\<close>:
  \<^verbatim>\<open>UPDATE "legacy_hash" SET "data" = COALESCE((SELECT jsonb_object_agg("key", "value") FROM jsonb_each("data") WHERE "key" <> ALL ($2)), '{}') WHERE "_key" = $1\<close>.
  It does not consult the registry.
\<close>

definition query_deleteObjectFields :: "database \<Rightarrow> string \<Rightarrow> string list \<Rightarrow> database" where
  "query_deleteObjectFields db k flds =
     (case legacy_hash db k of
        None \<Rightarrow> db
      | Some old \<Rightarrow>
          db\<lparr>legacy_hash := (legacy_hash db)
               (k \<mapsto> (case jsonb_object_agg
                              (map (\<lambda>p. (fst p, Some (snd p)))
                                 (filter (\<lambda>p. fst p \<notin> set flds) old)) of
                         None \<Rightarrow> []
                       | Some d \<Rightarrow> d))\<rparr>)"

text \<open>\<open>None\<close> for the fields is a value that is not an array.\<close>

definition deleteObjectFields :: "string option \<Rightarrow> string list option \<Rightarrow> database \<Rightarrow> database" where
  "deleteObjectFields key flds db =
     (case key of
        None \<Rightarrow> db
      | Some k \<Rightarrow>
          if k = [] then db
          else (case flds of
                  None \<Rightarrow> db
                | Some fs \<Rightarrow> if fs = [] then db else query_deleteObjectFields db k fs))"

definition deleteObjectField :: "string option \<Rightarrow> string \<Rightarrow> database \<Rightarrow> database" where
  "deleteObjectField key field db = deleteObjectFields key (Some [field]) db"

section \<open>JavaScript numbers\<close>

text \<open>
  A JavaScript number is a double: a finite one is given by the rational it denotes
  (the two zeros are not told apart), and there are \<^verbatim>\<open>NaN\<close> and the two infinities.
\<close>

datatype js_number = Num rat | NaN | PosInfinity | NegInfinity

definition pow_int :: "int \<Rightarrow> int \<Rightarrow> rat" where
  "pow_int b e = (if 0 \<le> e then of_int b ^ nat e else 1 / of_int b ^ nat (- e))"

text \<open>The number of digits of a positive integer in base \<open>b\<close>.\<close>

function count_digits :: "int \<Rightarrow> int \<Rightarrow> int" where
  "count_digits b n = (if 1 < b \<and> 0 < n then 1 + count_digits b (n div b) else 0)"
  by pat_completeness auto
termination
  by (relation "measure (\<lambda>(b, n). nat n)") (auto simp: int_div_less_self)

declare count_digits.simps [simp del]

text \<open>For a positive rational \<open>a\<close>, the integer \<open>e\<close> with \<open>b ^ e \<le> a < b ^ (e + 1)\<close>.\<close>

definition floor_log :: "int \<Rightarrow> rat \<Rightarrow> int" where
  "floor_log b a =
     (let d = count_digits b (fst (quotient_of a)) - count_digits b (snd (quotient_of a))
      in if pow_int b d \<le> a then d else d - 1)"

definition round_half_even :: "rat \<Rightarrow> int" where
  "round_half_even m =
     (let f = \<lfloor>m\<rfloor>; r = m - of_int f
      in if r < 1 / 2 then f else if 1 / 2 < r then f + 1 else if even f then f else f + 1)"

text \<open>
  The number value of a real: the nearest double, ties to the even significand. A
  double has 53 significant bits, the unit in the last place is never below
  \<open>2 ^ (- 1074)\<close>, and what rounds to \<open>2 ^ 1024\<close> or beyond is infinite.
\<close>

definition to_double :: "rat \<Rightarrow> js_number" where
  "to_double r =
     (if r = 0 then Num 0
      else let a = \<bar>r\<bar>;
               e = max (floor_log 2 a - 52) (- 1074);
               y = of_int (round_half_even (a / pow_int 2 e)) * pow_int 2 e
           in if 2 ^ 1024 \<le> y then (if 0 < r then PosInfinity else NegInfinity)
              else Num (if 0 < r then y else - y))"

text \<open>
  \<^verbatim>\<open>Number.prototype.toString\<close> prints the decimal with the fewest significant digits
  that reads back as the number and, of several, the one nearest to it. For a positive
  double \<open>x\<close> with \<open>10 ^ e10 \<le> x < 10 ^ (e10 + 1)\<close>, the decimals of \<open>k\<close> digits next to
  \<open>x\<close> are tried for \<open>k\<close> from 1; 17 digits always suffice. An integer of magnitude
  below \<open>2 ^ 53\<close> prints as itself.
\<close>

definition decimal_candidate :: "rat \<Rightarrow> int \<Rightarrow> nat \<Rightarrow> rat option" where
  "decimal_candidate x e10 k =
     (let scale = pow_int 10 (e10 - int k + 1);
          s = \<lfloor>x / scale\<rfloor>;
          lo = of_int s * scale;
          hi = of_int (s + 1) * scale;
          lo_ok = (to_double lo = Num x);
          hi_ok = (to_double hi = Num x)
      in if lo_ok \<and> hi_ok
         then Some (if x - lo < hi - x then lo else if hi - x < x - lo then hi
                    else if even s then lo else hi)
         else if lo_ok then Some lo
         else if hi_ok then Some hi
         else None)"

fun shortest_from :: "rat \<Rightarrow> int \<Rightarrow> nat \<Rightarrow> nat \<Rightarrow> rat" where
  "shortest_from x e10 k 0 = x"
| "shortest_from x e10 k (Suc fuel) =
     (case decimal_candidate x e10 k of
        Some c \<Rightarrow> c
      | None \<Rightarrow> shortest_from x e10 (Suc k) fuel)"

definition shortest_decimal :: "rat \<Rightarrow> rat" where
  "shortest_decimal x =
     (if x = 0 then 0
      else if 0 < x then shortest_from x (floor_log 10 x) 1 17
      else - shortest_from (- x) (floor_log 10 (- x)) 1 17)"

definition decimal_of_number :: "rat \<Rightarrow> rat" where
  "decimal_of_number x =
     (if of_int \<lfloor>x\<rfloor> = x \<and> \<bar>x\<bar> < 2 ^ 53 then x else shortest_decimal x)"

section \<open>Increments\<close>

text \<open>
  \<^verbatim>\<open>parseInt(value, 10)\<close> turns the value into a string, skips leading white space,
  reads a sign and the longest run of decimal digits, and returns the number value of
  that integer; without a digit the result is \<^verbatim>\<open>NaN\<close>. The argument is a number, a
  string (given by its UTF-8 bytes), or a value whose string has no leading digits,
  such as \<^verbatim>\<open>undefined\<close> or \<^verbatim>\<open>null\<close> (\<open>DeltaOther\<close>).
\<close>

datatype delta_arg = DeltaNum js_number | DeltaStr string | DeltaOther

text \<open>
  The white space of JavaScript in UTF-8: TAB, LF, VT, FF, CR, SP; U+00A0; U+1680,
  U+2000 to U+200A, U+2028, U+2029, U+202F, U+205F, U+3000 and U+FEFF.
\<close>

definition white_space3 :: "nat \<Rightarrow> nat \<Rightarrow> nat \<Rightarrow> bool" where
  "white_space3 a b c \<longleftrightarrow>
     (a = 225 \<and> b = 154 \<and> c = 128) \<or>
     (a = 226 \<and> b = 128 \<and> ((128 \<le> c \<and> c \<le> 138) \<or> c = 168 \<or> c = 169 \<or> c = 175)) \<or>
     (a = 226 \<and> b = 129 \<and> c = 159) \<or>
     (a = 227 \<and> b = 128 \<and> c = 128) \<or>
     (a = 239 \<and> b = 187 \<and> c = 191)"

fun skip_white_space :: "string \<Rightarrow> string" where
  "skip_white_space [] = []"
| "skip_white_space [a] =
     (if (of_char a :: nat) \<in> {9, 10, 11, 12, 13, 32} then [] else [a])"
| "skip_white_space [a, b] =
     (if (of_char a :: nat) \<in> {9, 10, 11, 12, 13, 32} then skip_white_space [b]
      else if (of_char a :: nat) = 194 \<and> (of_char b :: nat) = 160 then []
      else [a, b])"
| "skip_white_space (a # b # c # s) =
     (if (of_char a :: nat) \<in> {9, 10, 11, 12, 13, 32} then skip_white_space (b # c # s)
      else if (of_char a :: nat) = 194 \<and> (of_char b :: nat) = 160 then skip_white_space (c # s)
      else if white_space3 (of_char a) (of_char b) (of_char c) then skip_white_space s
      else a # b # c # s)"

definition is_digit :: "char \<Rightarrow> bool" where
  "is_digit c \<longleftrightarrow> 48 \<le> (of_char c :: nat) \<and> (of_char c :: nat) \<le> 57"

definition digits_value :: "string \<Rightarrow> int" where
  "digits_value ds = foldl (\<lambda>n c. 10 * n + (of_char c - 48)) 0 ds"

definition parse_sign :: "string \<Rightarrow> bool \<times> string" where
  "parse_sign s =
     (case s of
        [] \<Rightarrow> (False, [])
      | c # r \<Rightarrow> if c = CHR ''-'' then (True, r)
                 else if c = CHR ''+'' then (False, r)
                 else (False, s))"

definition parseInt_string :: "string \<Rightarrow> js_number" where
  "parseInt_string s =
     (let sr = parse_sign (skip_white_space s);
          ds = takeWhile is_digit (snd sr)
      in if ds = [] then NaN
         else to_double (of_int (if fst sr then - digits_value ds else digits_value ds)))"

text \<open>
  The string of a finite number \<open>x\<close> other than 0 is its decimal \<open>c\<close>, in plain
  digits when \<open>10 ^ (- 6) \<le> c < 10 ^ 21\<close> and as \<^verbatim>\<open>d.ddde+n\<close> or \<^verbatim>\<open>d.ddde-n\<close> otherwise:
  \<^verbatim>\<open>parseInt\<close> reads the digits before the point, which in the second form is the one
  leading digit. The strings \<^verbatim>\<open>NaN\<close> and \<^verbatim>\<open>Infinity\<close> have no digit.
\<close>

definition parseInt_number :: "rat \<Rightarrow> js_number" where
  "parseInt_number x =
     (if x = 0 then Num 0
      else let c = decimal_of_number \<bar>x\<bar>;
               m = (if 10 ^ 21 \<le> c \<or> c < 1 / 10 ^ 6
                    then \<lfloor>c / pow_int 10 (floor_log 10 c)\<rfloor>
                    else \<lfloor>c\<rfloor>)
           in to_double (of_int (if x < 0 then - m else m)))"

fun parseInt :: "delta_arg \<Rightarrow> js_number" where
  "parseInt (DeltaNum (Num x)) = parseInt_number x"
| "parseInt (DeltaNum v) = NaN"
| "parseInt (DeltaStr s) = parseInt_string s"
| "parseInt DeltaOther = NaN"

text \<open>
  A \<^verbatim>\<open>NUMERIC\<close> is an exact decimal, \<^verbatim>\<open>NaN\<close>, or (from PostgreSQL 14 on) an infinity.
  Its limits on the number of digits are not modelled. The sum follows PostgreSQL:
  \<^verbatim>\<open>NaN\<close> absorbs, and the two infinities add up to \<^verbatim>\<open>NaN\<close>.
\<close>

datatype numeric = Finite rat | NumericNaN | NumericInfinity | NumericNegInfinity

fun numeric_add :: "numeric \<Rightarrow> numeric \<Rightarrow> numeric" where
  "numeric_add (Finite a) (Finite b) = Finite (a + b)"
| "numeric_add NumericNaN y = NumericNaN"
| "numeric_add x NumericNaN = NumericNaN"
| "numeric_add NumericInfinity NumericNegInfinity = NumericNaN"
| "numeric_add NumericNegInfinity NumericInfinity = NumericNaN"
| "numeric_add NumericInfinity y = NumericInfinity"
| "numeric_add NumericNegInfinity y = NumericNegInfinity"
| "numeric_add (Finite a) y = y"

text \<open>
  \<^verbatim>\<open>to_jsonb\<close> and \<^verbatim>\<open>jsonb_build_object\<close> on a \<^verbatim>\<open>NUMERIC\<close>: a JSON number, or a JSON
  string for the values that JSON has no number for.
\<close>

fun to_jsonb :: "numeric \<Rightarrow> json" where
  "to_jsonb (Finite r) = JNum r"
| "to_jsonb NumericNaN = JStr ''NaN''"
| "to_jsonb NumericInfinity = JStr ''Infinity''"
| "to_jsonb NumericNegInfinity = JStr ''-Infinity''"

text \<open>
  \<^verbatim>\<open>("data"->>$2)::NUMERIC\<close>: the text of the field read as a number. A missing field
  and a JSON \<^verbatim>\<open>null\<close> give \<^verbatim>\<open>NULL\<close> (\<open>Inr None\<close>); a JSON number gives itself; the
  text of a boolean, an array or an object is no number and the cast raises. The
  content of a JSON string goes to the input function of \<^verbatim>\<open>NUMERIC\<close>, which belongs to
  the server and whose accepted spellings depend on its version: it is the parameter
  \<open>cast\<close> of the model, \<open>None\<close> where it raises.
\<close>

fun field_numeric :: "(string \<Rightarrow> numeric option) \<Rightarrow> json option \<Rightarrow> error + numeric option" where
  "field_numeric cast None = Inr None"
| "field_numeric cast (Some JNull) = Inr None"
| "field_numeric cast (Some (JNum n)) = Inr (Some (Finite n))"
| "field_numeric cast (Some (JStr s)) =
     (case cast s of None \<Rightarrow> Inl InvalidNumeric | Some n \<Rightarrow> Inr (Some n))"
| "field_numeric cast (Some v) = Inl InvalidNumeric"

text \<open>\<^verbatim>\<open>COALESCE(x, 0)\<close>.\<close>

definition coalesce0 :: "numeric option \<Rightarrow> numeric" where
  "coalesce0 x = (case x of None \<Rightarrow> Finite 0 | Some n \<Rightarrow> n)"

text \<open>
  \<^verbatim>\<open>$3::NUMERIC\<close>: the driver sends a number as its string. The string of a finite
  number is a decimal, which the server reads exactly; the strings of the infinities
  go to the input function.
\<close>

fun numeric_param :: "(string \<Rightarrow> numeric option) \<Rightarrow> js_number \<Rightarrow> error + numeric" where
  "numeric_param cast (Num x) = Inr (Finite (decimal_of_number x))"
| "numeric_param cast NaN =
     (case cast ''NaN'' of None \<Rightarrow> Inl InvalidNumeric | Some n \<Rightarrow> Inr n)"
| "numeric_param cast PosInfinity =
     (case cast ''Infinity'' of None \<Rightarrow> Inl InvalidNumeric | Some n \<Rightarrow> Inr n)"
| "numeric_param cast NegInfinity =
     (case cast ''-Infinity'' of None \<Rightarrow> Inl InvalidNumeric | Some n \<Rightarrow> Inr n)"

text \<open>
  One row of the statements \<^verbatim>\<open>incrObjectFieldBy\<close> and \<^verbatim>\<open>incrObjectFieldByMulti\<close>:
  \<^verbatim>\<open>INSERT ... jsonb_build_object($2, $3::NUMERIC) ON CONFLICT ("_key") DO UPDATE SET "data" = jsonb_set("legacy_hash"."data", ARRAY[$2], to_jsonb(COALESCE(("legacy_hash"."data"->>$2)::NUMERIC, 0) + $3::NUMERIC)) RETURNING ("data"->>$2)::NUMERIC v\<close>.
  The new value is computed from the row being written; what is returned is read
  from the new document.
\<close>

definition incr_document :: "(string \<Rightarrow> numeric option) \<Rightarrow> jsonb option \<Rightarrow> string \<Rightarrow> numeric \<Rightarrow> error + jsonb" where
  "incr_document cast row f n =
     (case row of
        None \<Rightarrow> Inr (jsonb_build_object f (to_jsonb n))
      | Some old \<Rightarrow>
          (case field_numeric cast (jsonb_get old f) of
             Inl e \<Rightarrow> Inl e
           | Inr x \<Rightarrow> Inr (jsonb_put f (to_jsonb (numeric_add (coalesce0 x) n)) old)))"

definition incr_row ::
  "(string \<Rightarrow> numeric option) \<Rightarrow> database \<Rightarrow> string \<Rightarrow> string \<Rightarrow> numeric \<Rightarrow>
   error + (numeric option \<times> database)" where
  "incr_row cast db k f n =
     (case incr_document cast (legacy_hash db k) f n of
        Inl e \<Rightarrow> Inl e
      | Inr new \<Rightarrow>
          (case field_numeric cast (jsonb_get new f) of
             Inl e \<Rightarrow> Inl e
           | Inr v \<Rightarrow> Inr (v, db\<lparr>legacy_hash := (legacy_hash db)(k \<mapsto> new)\<rparr>)))"

text \<open>
  The multi-key statement takes its rows from \<^verbatim>\<open>SELECT UNNEST($1::TEXT[]), ...\<close>, in
  the order of the array, and returns one value per row in that order; there is no
  position tag and no \<^verbatim>\<open>ORDER BY\<close>. PostgreSQL refuses to let one
  \<^verbatim>\<open>INSERT ... ON CONFLICT DO UPDATE\<close> touch a row twice (\<^verbatim>\<open>ON CONFLICT DO UPDATE
  command cannot affect row a second time\<close>); \<open>seen\<close> are the keys already written by
  the statement.
\<close>

fun incr_rows ::
  "(string \<Rightarrow> numeric option) \<Rightarrow> database \<Rightarrow> string list \<Rightarrow> string list \<Rightarrow> string \<Rightarrow> numeric \<Rightarrow>
   error + (numeric option list \<times> database)" where
  "incr_rows cast db seen [] f n = Inr ([], db)"
| "incr_rows cast db seen (k # ks) f n =
     (if k \<in> set seen then Inl CardinalityViolation
      else case incr_row cast db k f n of
             Inl e \<Rightarrow> Inl e
           | Inr (v, db') \<Rightarrow>
               (case incr_rows cast db' (k # seen) ks f n of
                  Inl e \<Rightarrow> Inl e
                | Inr (vs, db'') \<Rightarrow> Inr (v # vs, db'')))"

text \<open>
  \<^verbatim>\<open>parseFloat(r.v)\<close>: the driver hands a \<^verbatim>\<open>NUMERIC\<close> over as its text, and
  \<^verbatim>\<open>parseFloat\<close> returns the number value of it; a \<^verbatim>\<open>NULL\<close> is \<^verbatim>\<open>null\<close>, whose
  string has no digit.
\<close>

fun parseFloat :: "numeric option \<Rightarrow> js_number" where
  "parseFloat None = NaN"
| "parseFloat (Some (Finite r)) = to_double r"
| "parseFloat (Some NumericNaN) = NaN"
| "parseFloat (Some NumericInfinity) = PosInfinity"
| "parseFloat (Some NumericNegInfinity) = NegInfinity"

text \<open>
  \<^verbatim>\<open>incrObjectFieldBy(key, field, value)\<close>. The key is absent, one string, or an array
  of strings (an array is truthy, also when empty). \<open>IncrNull\<close> is the \<^verbatim>\<open>null\<close> of the
  early return.
\<close>

datatype key_arg = KeyAbsent | Key string | Keys "string list"

datatype incr_result = IncrNull | IncrOne js_number | IncrMany "js_number list"

definition falsy_key_arg :: "key_arg \<Rightarrow> bool" where
  "falsy_key_arg key \<longleftrightarrow> (case key of KeyAbsent \<Rightarrow> True | Key k \<Rightarrow> k = [] | Keys ks \<Rightarrow> False)"

definition incrObjectFieldBy ::
  "(string \<Rightarrow> numeric option) \<Rightarrow> key_arg \<Rightarrow> string \<Rightarrow> delta_arg \<Rightarrow> database \<Rightarrow>
   (error + incr_result) \<times> database" where
  "incrObjectFieldBy cast key field val db =
     (if falsy_key_arg key \<or> parseInt val = NaN then (Inr IncrNull, db)
      else transaction
             (\<lambda>client. case key of
                  Keys ks \<Rightarrow>
                    (case ensureLegacyObjectsType client ks Hash of
                       Inl e \<Rightarrow> Inl e
                     | Inr client' \<Rightarrow>
                         (case numeric_param cast (parseInt val) of
                            Inl e \<Rightarrow> Inl e
                          | Inr n \<Rightarrow>
                              (case incr_rows cast client' [] ks field n of
                                 Inl e \<Rightarrow> Inl e
                               | Inr (vs, client'') \<Rightarrow>
                                   Inr (IncrMany (map parseFloat vs), client''))))
                | Key k \<Rightarrow>
                    (case ensureLegacyObjectType client k Hash of
                       Inl e \<Rightarrow> Inl e
                     | Inr client' \<Rightarrow>
                         (case numeric_param cast (parseInt val) of
                            Inl e \<Rightarrow> Inl e
                          | Inr n \<Rightarrow>
                              (case incr_row cast client' k field n of
                                 Inl e \<Rightarrow> Inl e
                               | Inr (v, client'') \<Rightarrow> Inr (IncrOne (parseFloat v), client''))))
                | KeyAbsent \<Rightarrow> Inl NotNullViolation)
             db)"

definition incrObjectField ::
  "(string \<Rightarrow> numeric option) \<Rightarrow> key_arg \<Rightarrow> string \<Rightarrow> database \<Rightarrow> (error + incr_result) \<times> database" where
  "incrObjectField cast key field db = incrObjectFieldBy cast key field (DeltaNum (Num 1)) db"

definition decrObjectField ::
  "(string \<Rightarrow> numeric option) \<Rightarrow> key_arg \<Rightarrow> string \<Rightarrow> database \<Rightarrow> (error + incr_result) \<times> database" where
  "decrObjectField cast key field db = incrObjectFieldBy cast key field (DeltaNum (Num (- 1))) db"

section \<open>Well-formed documents\<close>

text \<open>
  The canonical form of a \<^verbatim>\<open>jsonb\<close> object: its keys ascend in the storage order, so
  no key occurs twice. \<open>documents_sorted\<close> says it of every stored document.
\<close>

definition jsonb_sorted :: "jsonb \<Rightarrow> bool" where
  "jsonb_sorted d \<longleftrightarrow> sorted_wrt jsonb_key_less (map fst d)"

definition documents_sorted :: "database \<Rightarrow> bool" where
  "documents_sorted db \<longleftrightarrow> (\<forall>k d. legacy_hash db k = Some d \<longrightarrow> jsonb_sorted d)"

section \<open>Example states\<close>

definition empty_db :: database where
  "empty_db = \<lparr>legacy_object_live = (\<lambda>k. None), legacy_hash = (\<lambda>k. None)\<rparr>"

text \<open>The key \<open>k\<close> holds \<^verbatim>\<open>{"a": 1, "b": null}\<close>; no other key is registered.\<close>

definition example_db :: database where
  "example_db =
     \<lparr>legacy_object_live = (\<lambda>k. None)(''k'' \<mapsto> Hash),
      legacy_hash = (\<lambda>k. None)(''k'' \<mapsto> [(''a'', JNum 1), (''b'', JNull)])\<rparr>"

text \<open>The key \<open>k1\<close> holds \<^verbatim>\<open>{"n": 0}\<close>; the key \<open>k2\<close> is unset.\<close>

definition counters_db :: database where
  "counters_db =
     \<lparr>legacy_object_live = (\<lambda>k. None)(''k1'' \<mapsto> Hash),
      legacy_hash = (\<lambda>k. None)(''k1'' \<mapsto> [(''n'', JNum 0)])\<rparr>"

text \<open>The key \<open>k\<close> holds \<^verbatim>\<open>{"n": 9007199254740992}\<close>, that is \<open>2 ^ 53\<close>.\<close>

definition large_counter_db :: database where
  "large_counter_db =
     \<lparr>legacy_object_live = (\<lambda>k. None)(''k'' \<mapsto> Hash),
      legacy_hash = (\<lambda>k. None)(''k'' \<mapsto> [(''n'', JNum (2 ^ 53))])\<rparr>"

text \<open>The key \<open>k\<close> holds \<^verbatim>\<open>{"n": "1e2"}\<close>, a number written as a string.\<close>

definition text_counter_db :: database where
  "text_counter_db =
     \<lparr>legacy_object_live = (\<lambda>k. None)(''k'' \<mapsto> Hash),
      legacy_hash = (\<lambda>k. None)(''k'' \<mapsto> [(''n'', JStr ''1e2'')])\<rparr>"

text \<open>
  Three objects of a caller: \<^verbatim>\<open>{a: 1}\<close> at address 0, \<^verbatim>\<open>{b: 2}\<close> at address 1 and
  \<^verbatim>\<open>{"": 1, c: 3}\<close> at address 2.
\<close>

definition example_heap :: heap where
  "example_heap =
     (\<lambda>a. [])(0 := [(''a'', JNum 1)], 1 := [(''b'', JNum 2)], 2 := [([], JNum 1), (''c'', JNum 3)])"


section \<open>Facts about documents and objects\<close>

lemma map_of_jsonb_put: "map_of (jsonb_put k v d) = (map_of d)(k \<mapsto> v)"
  by (induction d) (auto simp: fun_upd_twist)

lemma map_of_set_property: "map_of (set_property obj f v) = (map_of obj)(f \<mapsto> v)"
  by (induction obj f v rule: set_property.induct) (auto simp: fun_upd_twist)

lemma map_of_all_null:
  "map_of (foldl (\<lambda>obj f. set_property obj f JNull) acc fs) =
     (\<lambda>f. if f \<in> set fs then Some JNull else map_of acc f)"
  by (induction fs arbitrary: acc) (auto simp: map_of_set_property fun_eq_iff)

lemma map_of_agg_fold:
  "map_of (foldl (\<lambda>d r. jsonb_put (fst r) (case snd r of None \<Rightarrow> JNull | Some v \<Rightarrow> v) d) acc
             (map (\<lambda>f. (f, g f)) fs)) =
     (\<lambda>f. if f \<in> set fs then Some (case g f of None \<Rightarrow> JNull | Some v \<Rightarrow> v) else map_of acc f)"
  by (induction fs arbitrary: acc) (auto simp: map_of_jsonb_put fun_eq_iff)

lemma map_of_rev_distinct: "distinct (map fst xs) \<Longrightarrow> map_of (rev xs) = map_of xs"
proof (induction xs)
  case Nil
  then show ?case by simp
next
  case (Cons p xs)
  then have "fst p \<notin> dom (map_of xs)" by (simp add: dom_map_of_conv_image_fst)
  with Cons show ?case
    by (cases p) (auto simp: map_add_def fun_eq_iff split: option.splits)
qed

lemma map_of_agg_rows:
  "map_of (foldl (\<lambda>d r. jsonb_put (fst r) (case snd r of None \<Rightarrow> JNull | Some v \<Rightarrow> v) d) acc
             (map (\<lambda>p. (fst p, Some (snd p))) xs)) = map_of acc ++ map_of (rev xs)"
proof (induction xs arbitrary: acc)
  case Nil
  then show ?case by simp
next
  case (Cons p xs)
  show ?case
    by (cases p) (simp add: Cons.IH map_of_jsonb_put map_add_def fun_eq_iff split: option.splits)
qed

lemma map_of_remaining: "map_of (filter (\<lambda>p. fst p \<notin> S) d) = map_of d |` (- S)"
  by (induction d) (auto simp: restrict_map_def fun_eq_iff)



lemma map_of_delete_property:
  "map_of (delete_property obj g) f = (if f = g then None else map_of obj f)"
  by (induction obj) (auto simp: delete_property_def)

lemma delete_property_absent: "\<not> hasOwnProperty obj g \<Longrightarrow> delete_property obj g = obj"
  by (induction obj) (auto simp: delete_property_def hasOwnProperty_def)

lemma hasOwnProperty_dom: "hasOwnProperty obj f \<longleftrightarrow> map_of obj f \<noteq> None"
  by (simp add: hasOwnProperty_def map_of_eq_None_iff)

lemma jsonb_exists_dom: "jsonb_exists d f \<longleftrightarrow> map_of d f \<noteq> None"
  by (simp add: jsonb_exists_def map_of_eq_None_iff)

lemma keys_from_lookup:
  "(\<And>f. (map_of m f \<noteq> None) = (f \<in> S)) \<Longrightarrow> fst ` set m = S"
  by (auto simp: dom_map_of_conv_image_fst[symmetric] dom_def)

lemma text_is_null_iff: "text_is_null x \<longleftrightarrow> x = None \<or> x = Some JNull"
  by (cases x rule: text_is_null.cases) auto

section \<open>Facts about the joins\<close>

lemma hash_rows_cases:
  "hash_rows db k =
     (if legacy_object_live db k = Some Hash
      then (case legacy_hash db k of None \<Rightarrow> [] | Some d \<Rightarrow> [d]) else [])"
  by (auto simp: hash_rows_def split: option.splits)

text \<open>
  Sorting by a key that is distinct and already ascending in \<open>xs\<close> undoes any
  rearrangement of \<open>xs\<close>.
\<close>

lemma sort_key_rearranged:
  assumes "mset ys = mset xs" and "distinct (map f xs)" and "sorted (map f xs)"
  shows "sort_key f ys = xs"
proof (rule properties_for_sort_key)
  show "mset xs = mset ys" using assms(1) by simp
  show "sorted (map f xs)" by (rule assms(3))
  fix k assume k: "k \<in> set xs"
  have dy: "distinct (map f ys)"
    using assms(1,2) by (metis mset_map mset_eq_imp_distinct_iff)
  have ky: "k \<in> set ys" using k assms(1) by (metis mset_eq_setD)
  have one: "filter (\<lambda>x. f k = f x) zs = [k]" if "distinct (map f zs)" and "k \<in> set zs" for zs
    using that by (induction zs) (auto simp: image_iff filter_empty_conv)
  show "filter (\<lambda>x. f k = f x) xs = filter (\<lambda>x. f k = f x) ys"
    using one[OF assms(2) k] one[OF dy ky] by simp
qed

lemma map_fst_tagged:
  "map fst (map (\<lambda>ki. (snd ki, g (fst ki))) (with_ordinality ks)) = [1..<Suc (length ks)]"
  by (simp add: with_ordinality_def comp_def)

lemma map_snd_tagged:
  "map snd (map (\<lambda>ki. (snd ki, g (fst ki))) (with_ordinality ks)) = map g ks"
proof -
  have "map fst (with_ordinality ks) = ks"
    by (simp add: with_ordinality_def del: upt_Suc)
  then have "map g (map fst (with_ordinality ks)) = map g ks" by simp
  then show ?thesis by (simp add: comp_def)
qed

section \<open>Facts about numbers\<close>

lemma count_digits_le: "n < b ^ k \<Longrightarrow> count_digits b n \<le> int k"
proof (induction k arbitrary: n)
  case 0
  then show ?case by (simp add: count_digits.simps)
next
  case (Suc k)
  show ?case
  proof (cases "1 < b \<and> 0 < n")
    case True
    have "n div b < b ^ k"
    proof (rule ccontr)
      assume "\<not> n div b < b ^ k"
      then have "b * b ^ k \<le> b * (n div b)" using True by (simp add: mult_left_mono)
      moreover have "b * (n div b) = n - n mod b" by (simp add: minus_mod_eq_mult_div)
      moreover have "0 \<le> n mod b" using True by simp
      moreover have "n < b * b ^ k" using Suc.prems by simp
      ultimately show False by linarith
    qed
    from Suc.IH[OF this] True show ?thesis
      by (subst count_digits.simps) simp
  next
    case False
    then show ?thesis by (subst count_digits.simps) auto
  qed
qed

lemma count_digits_one: "count_digits 2 1 = 1"
  by (simp add: count_digits.simps)

lemma floor_log_int_le:
  assumes "0 < m" and "m < 2 ^ 53"
  shows "floor_log 2 (of_int m) \<le> 52"
proof -
  have "count_digits 2 m \<le> 53" using count_digits_le[of m 2 53] assms(2) by simp
  then show ?thesis
    by (simp add: floor_log_def Let_def count_digits_one)
qed

lemma round_half_even_int: "round_half_even (of_int z) = z"
  by (simp add: round_half_even_def)

lemma pow_int_nonpos: "e \<le> 0 \<Longrightarrow> pow_int b e = 1 / of_int b ^ nat (- e)"
  by (cases "e = 0") (simp_all add: pow_int_def)

text \<open>An integer of magnitude below \<open>2 ^ 53\<close> is a double.\<close>

lemma to_double_pos_int:
  assumes "0 < m" and "m < 2 ^ 53"
  shows "to_double (of_int m) = Num (of_int m)" and "to_double (- of_int m) = Num (- of_int m)"
proof -
  define e where "e = max (floor_log 2 (of_int m) - 52) (- 1074)"
  have e: "e \<le> 0" using floor_log_int_le[OF assms] by (simp add: e_def)
  define k where "k = nat (- e)"
  have p: "pow_int 2 e = 1 / 2 ^ k" using pow_int_nonpos[OF e, of 2] by (simp add: k_def)
  have q: "(of_int m :: rat) / pow_int 2 e = of_int (m * 2 ^ k)" by (simp add: p)
  have y: "of_int (round_half_even ((of_int m :: rat) / pow_int 2 e)) * pow_int 2 e = of_int m"
    by (simp only: q round_half_even_int) (simp add: p)
  have small: "\<not> (2 :: rat) ^ 1024 \<le> of_int m"
  proof -
    have "(of_int m :: rat) < 2 ^ 53" using assms(2) by (metis of_int_less_numeral_power_cancel_iff)
    moreover have "(2 :: rat) ^ 53 \<le> 2 ^ 1024" by (rule power_increasing) simp_all
    ultimately show ?thesis by simp
  qed
  have a: "\<bar>of_int m :: rat\<bar> = of_int m" using assms(1) by simp
  show "to_double (of_int m) = Num (of_int m)"
    using assms(1) small by (simp add: to_double_def Let_def a e_def[symmetric] y)
  show "to_double (- of_int m) = Num (- of_int m)"
    using assms(1) small by (simp add: to_double_def Let_def a e_def[symmetric] y)
qed

lemma to_double_int: "\<bar>i\<bar> < 2 ^ 53 \<Longrightarrow> to_double (of_int i) = Num (of_int i)"
proof -
  assume b: "\<bar>i\<bar> < 2 ^ 53"
  consider "i = 0" | "0 < i" | "i < 0" by linarith
  then show ?thesis
  proof cases
    case 1
    then show ?thesis by (simp add: to_double_def)
  next
    case 2
    with b show ?thesis by (simp add: to_double_pos_int(1))
  next
    case 3
    with b have "0 < - i" "- i < 2 ^ 53" by simp_all
    from to_double_pos_int(2)[OF this] show ?thesis by simp
  qed
qed

lemma decimal_of_number_int: "\<bar>i\<bar> < 2 ^ 53 \<Longrightarrow> decimal_of_number (of_int i) = of_int i"
proof -
  assume "\<bar>i\<bar> < 2 ^ 53"
  then have "\<bar>of_int i :: rat\<bar> < 2 ^ 53"
    by (metis of_int_abs of_int_less_numeral_power_cancel_iff)
  then show ?thesis by (simp add: decimal_of_number_def)
qed

text \<open>\<^verbatim>\<open>parseInt\<close> of a number that holds such an integer is that number.\<close>

lemma parseInt_number_pos_int:
  assumes "0 < m" and "m < 2 ^ 53"
  shows "parseInt_number (of_int m) = Num (of_int m)"
    and "parseInt_number (- of_int m) = Num (- of_int m)"
proof -
  have b: "\<bar>m\<bar> < 2 ^ 53" using assms by simp
  have c: "decimal_of_number (of_int m) = of_int m" by (rule decimal_of_number_int[OF b])
  have lo: "\<not> (of_int m :: rat) < 1 / 10 ^ 6"
  proof -
    have "(1 :: rat) \<le> of_int m" using assms(1) by simp
    moreover have "(1 :: rat) / 10 ^ 6 < 1" by simp
    ultimately show ?thesis by linarith
  qed
  have hi: "\<not> (10 :: rat) ^ 21 \<le> of_int m"
  proof -
    have "(of_int m :: rat) < 2 ^ 53" using assms(2) by (metis of_int_less_numeral_power_cancel_iff)
    moreover have "(2 :: rat) ^ 53 < 10 ^ 21" by simp
    ultimately show ?thesis by linarith
  qed
  have pos: "(0 :: rat) < of_int m" using assms(1) by simp
  have a: "\<bar>of_int m :: rat\<bar> = of_int m" using assms(1) by simp
  have nz: "(of_int m :: rat) \<noteq> 0" using assms(1) by simp
  have sel: "(if 10 ^ 21 \<le> (of_int m :: rat) \<or> (of_int m :: rat) < 1 / 10 ^ 6
              then \<lfloor>(of_int m :: rat) / pow_int 10 (floor_log 10 (of_int m))\<rfloor>
              else \<lfloor>of_int m :: rat\<rfloor>) = m"
    using lo hi by (simp only: if_False simp_thms floor_of_int)
  have "parseInt_number (of_int m) = to_double (of_int m)"
    unfolding parseInt_number_def Let_def a c sel using nz pos by simp
  then show "parseInt_number (of_int m) = Num (of_int m)"
    by (simp add: to_double_pos_int(1)[OF assms])
  have "parseInt_number (- of_int m) = to_double (of_int (- m))"
    unfolding parseInt_number_def Let_def abs_minus_cancel a c sel using nz pos by simp
  then show "parseInt_number (- of_int m) = Num (- of_int m)"
    by (simp add: to_double_pos_int(2)[OF assms])
qed

lemma parseInt_safe_integer:
  assumes "\<bar>i\<bar> < 2 ^ 53"
  shows "parseInt (DeltaNum (Num (of_int i))) = Num (of_int i)"
proof -
  consider "i = 0" | "0 < i" | "i < 0" by linarith
  then show ?thesis
  proof cases
    case 1
    then show ?thesis by (simp add: parseInt_number_def)
  next
    case 2
    with assms show ?thesis by (simp add: parseInt_number_pos_int(1))
  next
    case 3
    with assms have "0 < - i" "- i < 2 ^ 53" by simp_all
    from parseInt_number_pos_int(2)[OF this] show ?thesis by simp
  qed
qed

text \<open>
  Beyond \<open>2 ^ 53\<close> the doubles are two or more apart: \<open>2 ^ 53 + 1\<close> lies half way
  between two of them and rounds to the even one, \<open>2 ^ 53\<close>. The number \<open>10 ^ 21\<close> is a
  double; its string is \<^verbatim>\<open>1e+21\<close>, of which \<^verbatim>\<open>parseInt\<close> reads the digit 1.
\<close>

lemma floor_log_2_example: "floor_log 2 (2 ^ 53 + 1) = 53"
proof -
  have q: "quotient_of (2 ^ 53 + 1) = (2 ^ 53 + 1, 1)"
    using quotient_of_int[of "2 ^ 53 + 1"] by simp
  have "count_digits 2 (2 ^ 53 + 1) = 54" "count_digits 2 1 = 1"
    by (simp_all add: count_digits.simps)
  then show ?thesis
    by (simp add: floor_log_def q pow_int_def)
qed

lemma to_double_tie: "to_double (2 ^ 53 + 1) = Num (2 ^ 53)"
proof -
  have fl: "\<lfloor>(2 ^ 53 + 1) / 2 :: rat\<rfloor> = 2 ^ 52"
    by (rule floor_unique) simp_all
  have r: "round_half_even ((2 ^ 53 + 1) / 2) = 2 ^ 52"
    unfolding round_half_even_def Let_def fl by simp
  show ?thesis
    using floor_log_2_example r by (simp add: to_double_def Let_def pow_int_def)
qed

lemma floor_log_sextillion:
  "floor_log 2 (10 ^ 21) = 69" "floor_log 2 (2 * 10 ^ 21) = 70" "floor_log 10 (10 ^ 21) = 21"
proof -
  have q: "quotient_of (10 ^ 21) = (10 ^ 21, 1)" "quotient_of (2 * 10 ^ 21) = (2 * 10 ^ 21, 1)"
    using quotient_of_int[of "10 ^ 21"] quotient_of_int[of "2 * 10 ^ 21"] by simp_all
  have c: "count_digits 2 (10 ^ 21) = 70" "count_digits 2 (2 * 10 ^ 21) = 71"
    "count_digits 10 (10 ^ 21) = 22" "count_digits 2 1 = 1" "count_digits 10 1 = 1"
    by (simp_all add: count_digits.simps)
  show "floor_log 2 (10 ^ 21) = 69" "floor_log 2 (2 * 10 ^ 21) = 70" "floor_log 10 (10 ^ 21) = 21"
    using c by (simp_all add: floor_log_def q pow_int_def)
qed

lemma to_double_sextillion:
  "to_double (10 ^ 21) = Num (10 ^ 21)" "to_double (2 * 10 ^ 21) = Num (2 * 10 ^ 21)"
proof -
  have d: "(10 ^ 21 :: rat) / 2 ^ 17 = of_int (5 ^ 21 * 2 ^ 4)"
    "(2 * 10 ^ 21 :: rat) / 2 ^ 18 = of_int (5 ^ 21 * 2 ^ 4)"
    by simp_all
  have r: "round_half_even ((10 ^ 21) / 2 ^ 17) = 5 ^ 21 * 2 ^ 4"
    "round_half_even ((2 * 10 ^ 21) / 2 ^ 18) = 5 ^ 21 * 2 ^ 4"
    unfolding d round_half_even_int by simp_all
  show "to_double (10 ^ 21) = Num (10 ^ 21)"
    using floor_log_sextillion(1) r(1) by (simp add: to_double_def Let_def pow_int_def)
  show "to_double (2 * 10 ^ 21) = Num (2 * 10 ^ 21)"
    using floor_log_sextillion(2) r(2) by (simp add: to_double_def Let_def pow_int_def)
qed

lemma decimal_of_sextillion: "decimal_of_number (10 ^ 21) = 10 ^ 21"
proof -
  have "decimal_candidate (10 ^ 21) 21 1 = Some (10 ^ 21)"
    using to_double_sextillion by (simp add: decimal_candidate_def Let_def pow_int_def)
  then have "shortest_from (10 ^ 21) 21 1 17 = 10 ^ 21"
    by (simp add: numeral_eq_Suc)
  then show ?thesis
    using floor_log_sextillion(3) by (simp add: decimal_of_number_def shortest_decimal_def)
qed

lemma parseInt_sextillion: "parseInt (DeltaNum (Num (10 ^ 21))) = Num 1"
proof -
  have "to_double 1 = Num 1"
    using to_double_int[of 1] by simp
  then show ?thesis
    using decimal_of_sextillion floor_log_sextillion(3)
    by (simp add: parseInt_number_def Let_def pow_int_def)
qed

lemma parseInt_string_rounds: "parseInt (DeltaStr ''9007199254740993'') = Num (2 ^ 53)"
proof -
  have "digits_value ''9007199254740993'' = 2 ^ 53 + 1"
    by (simp add: digits_value_def)
  then show ?thesis
    using to_double_tie
    by (simp add: parseInt_string_def parse_sign_def is_digit_def white_space3_def Let_def)
qed

section \<open>Facts about the write statements\<close>

lemma ensureLegacyObjectsType_ok:
  "\<forall>k\<in>set ks. legacy_object_live db k = None \<or> legacy_object_live db k = Some Hash \<Longrightarrow>
   \<exists>db'. ensureLegacyObjectsType db ks Hash = Inr db' \<and> legacy_hash db' = legacy_hash db \<and>
         (\<forall>k\<in>set ks. legacy_object_live db' k = Some Hash) \<and>
         (\<forall>k. k \<notin> set ks \<longrightarrow> legacy_object_live db' k = legacy_object_live db k)"
proof (induction ks arbitrary: db)
  case Nil
  then show ?case by simp
next
  case (Cons k ks)
  define db1 where "db1 = (if legacy_object_live db k = None
      then db\<lparr>legacy_object_live := (legacy_object_live db)(k \<mapsto> Hash)\<rparr> else db)"
  have e: "ensureLegacyObjectType db k Hash = Inr db1"
    using Cons.prems by (auto simp: ensureLegacyObjectType_def db1_def)
  have h1: "legacy_hash db1 = legacy_hash db"
    by (simp add: db1_def)
  have l1: "legacy_object_live db1 = (legacy_object_live db)(k \<mapsto> Hash)"
    using Cons.prems by (auto simp: db1_def fun_eq_iff)
  have "\<forall>k'\<in>set ks. legacy_object_live db1 k' = None \<or> legacy_object_live db1 k' = Some Hash"
    using Cons.prems by (simp add: l1)
  from Cons.IH[OF this] obtain db' where
    "ensureLegacyObjectsType db1 ks Hash = Inr db'" "legacy_hash db' = legacy_hash db1"
    "\<forall>k\<in>set ks. legacy_object_live db' k = Some Hash"
    "\<forall>k'. k' \<notin> set ks \<longrightarrow> legacy_object_live db' k' = legacy_object_live db1 k'"
    by blast
  then show ?case
    using e h1 l1 by (intro exI[of _ db']) auto
qed

text \<open>
  One row of the increment, for a key whose field reads as the finite number \<open>q\<close>
  (0 without a row, without the field, or for \<^verbatim>\<open>null\<close>).
\<close>

lemma incr_row_ok:
  assumes "(legacy_hash db k = None \<and> q = 0) \<or>
           (\<exists>d x. legacy_hash db k = Some d \<and> field_numeric cast (jsonb_get d f) = Inr x \<and>
                  coalesce0 x = Finite q)"
  shows "\<exists>new. incr_row cast db k f (Finite n) =
                  Inr (Some (Finite (q + n)), db\<lparr>legacy_hash := (legacy_hash db)(k \<mapsto> new)\<rparr>) \<and>
               map_of new f = Some (JNum (q + n))"
  using assms
  by (auto simp: incr_row_def incr_document_def jsonb_build_object_def jsonb_get_def
        map_of_jsonb_put)

lemma incr_rows_ok:
  assumes "distinct ks" and "set ks \<inter> set seen = {}"
      and "\<forall>k\<in>set ks. (legacy_hash db k = None \<and> p k = 0) \<or>
             (\<exists>d x. legacy_hash db k = Some d \<and> field_numeric cast (jsonb_get d f) = Inr x \<and>
                    coalesce0 x = Finite (p k))"
  shows "\<exists>db'. incr_rows cast db seen ks f (Finite n) =
                  Inr (map (\<lambda>k. Some (Finite (p k + n))) ks, db') \<and>
           legacy_object_live db' = legacy_object_live db \<and>
           (\<forall>k. k \<notin> set ks \<longrightarrow> legacy_hash db' k = legacy_hash db k) \<and>
           (\<forall>k\<in>set ks. \<exists>d. legacy_hash db' k = Some d \<and> map_of d f = Some (JNum (p k + n)))"
  using assms
proof (induction ks arbitrary: db seen)
  case Nil
  then show ?case by simp
next
  case (Cons k ks)
  have "(legacy_hash db k = None \<and> p k = 0) \<or>
        (\<exists>d x. legacy_hash db k = Some d \<and> field_numeric cast (jsonb_get d f) = Inr x \<and>
               coalesce0 x = Finite (p k))"
    using Cons.prems(3) by simp
  from incr_row_ok[OF this, of n] obtain new where
    r: "incr_row cast db k f (Finite n) =
          Inr (Some (Finite (p k + n)), db\<lparr>legacy_hash := (legacy_hash db)(k \<mapsto> new)\<rparr>)"
    and n1: "map_of new f = Some (JNum (p k + n))"
    by blast
  define db1 where "db1 = db\<lparr>legacy_hash := (legacy_hash db)(k \<mapsto> new)\<rparr>"
  have l1: "legacy_object_live db1 = legacy_object_live db" by (simp add: db1_def)
  have o1: "\<forall>k'. k' \<noteq> k \<longrightarrow> legacy_hash db1 k' = legacy_hash db k'" by (simp add: db1_def)
  have k1: "legacy_hash db1 k = Some new" by (simp add: db1_def)
  have a1: "distinct ks" using Cons.prems(1) by simp
  have a2: "set ks \<inter> set (k # seen) = {}" using Cons.prems(1,2) by auto
  have a3: "\<forall>k'\<in>set ks. (legacy_hash db1 k' = None \<and> p k' = 0) \<or>
             (\<exists>d x. legacy_hash db1 k' = Some d \<and> field_numeric cast (jsonb_get d f) = Inr x \<and>
                    coalesce0 x = Finite (p k'))"
  proof
    fix k' assume in_ks: "k' \<in> set ks"
    then have "k' \<noteq> k" using Cons.prems(1) by auto
    then have same: "legacy_hash db1 k' = legacy_hash db k'" using o1 by simp
    have "(legacy_hash db k' = None \<and> p k' = 0) \<or>
             (\<exists>d x. legacy_hash db k' = Some d \<and> field_numeric cast (jsonb_get d f) = Inr x \<and>
                    coalesce0 x = Finite (p k'))"
      using Cons.prems(3) in_ks by simp
    then show "(legacy_hash db1 k' = None \<and> p k' = 0) \<or>
             (\<exists>d x. legacy_hash db1 k' = Some d \<and> field_numeric cast (jsonb_get d f) = Inr x \<and>
                    coalesce0 x = Finite (p k'))"
      by (simp only: same)
  qed
  from Cons.IH[OF a1 a2 a3] obtain db' where
    i: "incr_rows cast db1 (k # seen) ks f (Finite n) =
          Inr (map (\<lambda>k. Some (Finite (p k + n))) ks, db')"
    and l: "legacy_object_live db' = legacy_object_live db1"
    and o: "\<forall>k'. k' \<notin> set ks \<longrightarrow> legacy_hash db' k' = legacy_hash db1 k'"
    and nw: "\<forall>k'\<in>set ks. \<exists>d. legacy_hash db' k' = Some d \<and> map_of d f = Some (JNum (p k' + n))"
    by blast
  have ns: "k \<notin> set seen" using Cons.prems(2) by simp
  have nk: "k \<notin> set ks" using Cons.prems(1) by simp
  show ?case
    using r[folded db1_def] i l l1 o o1 k1 n1 nw ns nk by (intro exI[of _ db']) auto
qed

text \<open>The multi-key statement succeeds only on keys that are pairwise distinct.\<close>

lemma incr_rows_distinct:
  "incr_rows cast db seen ks f n = Inr r \<Longrightarrow> distinct ks \<and> set ks \<inter> set seen = {}"
proof (induction ks arbitrary: db seen r)
  case Nil
  then show ?case by simp
next
  case (Cons k ks)
  from Cons.prems obtain v db1 r1 where
    ns: "k \<notin> set seen" and i: "incr_rows cast db1 (k # seen) ks f n = Inr r1"
    by (auto split: if_splits sum.splits prod.splits)
  from Cons.IH[OF i] ns show ?case by auto
qed

lemma setObject_heap:
  "fst (snd (setObject key (Some a) h db)) =
     (if falsy key then h else h(a := delete_property (h a) []))"
  by (cases key) (auto simp: setObject_def falsy_def Let_def delete_property_absent)


lemma remaining_after_delete:
  assumes "distinct (map fst d)"
  shows "map_of (case jsonb_object_agg
                        (map (\<lambda>p. (fst p, Some (snd p))) (filter (\<lambda>p. fst p \<notin> S) d)) of
                   None \<Rightarrow> [] | Some d' \<Rightarrow> d') = map_of d |` (- S)"
proof -
  have dis: "distinct (map fst (filter (\<lambda>p. fst p \<notin> S) d))"
    using assms by (simp add: distinct_map_filter)
  have "map_of (case jsonb_object_agg
                        (map (\<lambda>p. (fst p, Some (snd p))) (filter (\<lambda>p. fst p \<notin> S) d)) of
                   None \<Rightarrow> [] | Some d' \<Rightarrow> d') = map_of (rev (filter (\<lambda>p. fst p \<notin> S) d))"
    by (auto simp: jsonb_object_agg_def map_of_agg_rows)
  then show ?thesis
    by (simp add: map_of_rev_distinct[OF dis] map_of_remaining)
qed

section \<open>Stored documents stay in canonical form\<close>

lemma bytes_less_irrefl: "\<not> bytes_less a a"
  by (induction a) auto

lemma bytes_less_trans: "bytes_less a b \<Longrightarrow> bytes_less b c \<Longrightarrow> bytes_less a c"
proof (induction a b arbitrary: c rule: bytes_less.induct)
  case (2 y ys)
  then show ?case by (cases c) auto
next
  case (4 x xs y ys)
  then show ?case by (cases c) auto
qed auto

lemma bytes_less_total: "length a = length b \<Longrightarrow> a \<noteq> b \<Longrightarrow> bytes_less a b \<or> bytes_less b a"
proof (induction a b rule: bytes_less.induct)
  case (4 x xs y ys)
  have "(of_char x :: nat) = of_char y \<Longrightarrow> x = y" by simp
  with 4 show ?case
    by (cases "x = y") (auto simp: not_less le_less)
qed auto

lemma jsonb_key_less_trans: "jsonb_key_less a b \<Longrightarrow> jsonb_key_less b c \<Longrightarrow> jsonb_key_less a c"
  by (auto simp: jsonb_key_less_def intro: bytes_less_trans)

lemma jsonb_key_less_total: "a \<noteq> b \<Longrightarrow> jsonb_key_less a b \<or> jsonb_key_less b a"
  using bytes_less_total[of a b] by (auto simp: jsonb_key_less_def)

lemma jsonb_key_less_irrefl: "\<not> jsonb_key_less a a"
  by (simp add: jsonb_key_less_def bytes_less_irrefl)

lemma keys_jsonb_put: "fst ` set (jsonb_put k v d) = insert k (fst ` set d)"
  by (simp add: dom_map_of_conv_image_fst[symmetric] map_of_jsonb_put)

lemma jsonb_put_sorted: "jsonb_sorted d \<Longrightarrow> jsonb_sorted (jsonb_put k v d)"
  unfolding jsonb_sorted_def
proof (induction d)
  case Nil
  then show ?case by simp
next
  case (Cons p d)
  obtain k' v' where p: "p = (k', v')" by (cases p)
  show ?case
  proof (cases "k = k'")
    case True
    with Cons.prems p show ?thesis by simp
  next
    case False
    show ?thesis
    proof (cases "jsonb_key_less k k'")
      case True
      with Cons.prems p False show ?thesis
        by (auto intro: jsonb_key_less_trans)
    next
      case nl: False
      with False have "jsonb_key_less k' k" using jsonb_key_less_total by blast
      with Cons p False nl show ?thesis
        by (auto simp: keys_jsonb_put)
    qed
  qed
qed

lemma jsonb_sorted_distinct: "jsonb_sorted d \<Longrightarrow> distinct (map fst d)"
  unfolding jsonb_sorted_def
  by (induction d) (auto simp: jsonb_key_less_irrefl)

lemma jsonb_of_object_sorted: "jsonb_sorted (jsonb_of_object obj)"
  by (induction obj) (simp_all add: jsonb_of_object_def jsonb_sorted_def jsonb_put_sorted[unfolded jsonb_sorted_def])

lemma jsonb_concat_sorted: "jsonb_sorted a \<Longrightarrow> jsonb_sorted (jsonb_concat a b)"
  by (induction b) (simp_all add: jsonb_concat_def jsonb_put_sorted)

lemma jsonb_agg_fold_sorted:
  "jsonb_sorted acc \<Longrightarrow>
   jsonb_sorted (foldl (\<lambda>d r. jsonb_put (fst r) (case snd r of None \<Rightarrow> JNull | Some v \<Rightarrow> v) d) acc rows)"
  by (induction rows arbitrary: acc) (simp_all add: jsonb_put_sorted)

lemma jsonb_sorted_Nil: "jsonb_sorted []"
  by (simp add: jsonb_sorted_def)

lemma jsonb_object_agg_sorted:
  "jsonb_sorted (case jsonb_object_agg rows of None \<Rightarrow> [] | Some d \<Rightarrow> d)"
  by (simp add: jsonb_object_agg_def jsonb_agg_fold_sorted jsonb_sorted_Nil)

lemma documents_sorted_update:
  "documents_sorted db \<Longrightarrow> jsonb_sorted d \<Longrightarrow>
   documents_sorted (db\<lparr>legacy_hash := (legacy_hash db)(k \<mapsto> d)\<rparr>)"
  by (simp add: documents_sorted_def)

lemma documents_sorted_same:
  "legacy_hash db1 = legacy_hash db \<Longrightarrow> documents_sorted db \<Longrightarrow> documents_sorted db1"
  by (simp add: documents_sorted_def)

lemma documents_sortedD: "documents_sorted db \<Longrightarrow> legacy_hash db k = Some d \<Longrightarrow> jsonb_sorted d"
  by (simp add: documents_sorted_def)

lemma jsonb_build_object_sorted: "jsonb_sorted (jsonb_build_object f v)"
  by (simp add: jsonb_build_object_def jsonb_sorted_def)

lemma transaction_sorted:
  assumes "documents_sorted db"
      and "\<And>r db'. body db = Inr (r, db') \<Longrightarrow> documents_sorted db'"
  shows "documents_sorted (snd (transaction body db))"
  using assms by (auto simp: transaction_def split: sum.splits)

lemma incr_row_sorted:
  assumes "documents_sorted db" and "incr_row cast db k f n = Inr (v, db')"
  shows "documents_sorted db'"
proof -
  from assms(2) obtain new where
    d: "incr_document cast (legacy_hash db k) f n = Inr new"
    and db': "db' = db\<lparr>legacy_hash := (legacy_hash db)(k \<mapsto> new)\<rparr>"
    by (auto simp: incr_row_def split: sum.splits)
  have "jsonb_sorted new"
  proof (cases "legacy_hash db k")
    case None
    with d show ?thesis by (auto simp: incr_document_def jsonb_build_object_sorted)
  next
    case (Some old)
    with d obtain w where "new = jsonb_put f w old"
      by (auto simp: incr_document_def split: sum.splits)
    then show ?thesis
      using assms(1) Some by (simp add: jsonb_put_sorted documents_sortedD)
  qed
  then show ?thesis
    using assms(1) by (simp add: db' documents_sorted_update)
qed

lemma incr_rows_sorted:
  "documents_sorted db \<Longrightarrow> incr_rows cast db seen ks f n = Inr (vs, db') \<Longrightarrow> documents_sorted db'"
proof (induction ks arbitrary: db seen vs)
  case Nil
  then show ?case by simp
next
  case (Cons k ks)
  from Cons.prems(2) obtain v db1 vs' where
    r: "incr_row cast db k f n = Inr (v, db1)"
    and i: "incr_rows cast db1 (k # seen) ks f n = Inr (vs', db')"
    by (auto split: if_splits sum.splits prod.splits)
  from incr_row_sorted[OF Cons.prems(1) r] have "documents_sorted db1" .
  from Cons.IH[OF this i] show ?case .
qed

lemma ensureLegacyObjectType_hash:
  "ensureLegacyObjectType db k t = Inr db' \<Longrightarrow> legacy_hash db' = legacy_hash db"
  by (auto simp: ensureLegacyObjectType_def split: option.splits if_splits)

lemma ensureLegacyObjectsType_hash:
  "ensureLegacyObjectsType db ks t = Inr db' \<Longrightarrow> legacy_hash db' = legacy_hash db"
proof (induction ks arbitrary: db)
  case Nil
  then show ?case by simp
next
  case (Cons k ks)
  from Cons.prems obtain db1 where
    e: "ensureLegacyObjectType db k t = Inr db1" and r: "ensureLegacyObjectsType db1 ks t = Inr db'"
    by (auto split: sum.splits)
  from Cons.IH[OF r] ensureLegacyObjectType_hash[OF e] show ?case by simp
qed

lemma query_setObject_sorted:
  "documents_sorted c \<Longrightarrow> documents_sorted (query_setObject c k (jsonb_of_object obj))"
  by (cases "legacy_hash c k")
     (simp_all add: query_setObject_def documents_sorted_update jsonb_of_object_sorted
        jsonb_concat_sorted documents_sortedD)

lemma query_setObjectField_sorted:
  "documents_sorted c \<Longrightarrow> documents_sorted (query_setObjectField c k f w)"
  by (cases "legacy_hash c k")
     (simp_all add: query_setObjectField_def documents_sorted_update jsonb_build_object_sorted
        jsonb_put_sorted documents_sortedD)

lemma query_deleteObjectFields_sorted:
  "documents_sorted c \<Longrightarrow> documents_sorted (query_deleteObjectFields c k fs)"
  by (cases "legacy_hash c k")
     (simp_all add: query_deleteObjectFields_def documents_sorted_update jsonb_object_agg_sorted)

lemma setObject_sorted:
  assumes "documents_sorted db"
  shows "documents_sorted (snd (snd (setObject key data h db)))"
proof -
  have body: "documents_sorted db'"
    if "(case ensureLegacyObjectType db k Hash of
           Inl e \<Rightarrow> Inl e
         | Inr c \<Rightarrow> Inr ((), query_setObject c k (jsonb_of_object obj))) = Inr (r, db')"
    for k obj r db'
  proof -
    from that obtain c where e: "ensureLegacyObjectType db k Hash = Inr c"
      and d: "db' = query_setObject c k (jsonb_of_object obj)"
      by (auto split: sum.splits)
    from documents_sorted_same[OF ensureLegacyObjectType_hash[OF e] assms]
    show ?thesis by (simp add: d query_setObject_sorted)
  qed
  show ?thesis
    using assms
    by (auto simp: setObject_def Let_def split: option.splits
          intro!: transaction_sorted elim: body)
qed

lemma setObjectField_sorted:
  assumes "documents_sorted db"
  shows "documents_sorted (snd (setObjectField key field v db))"
proof -
  have body: "documents_sorted db'"
    if "(case key of
           None \<Rightarrow> Inl NotNullViolation
         | Some k \<Rightarrow> (case ensureLegacyObjectType db k Hash of
                        Inl e \<Rightarrow> Inl e
                      | Inr c \<Rightarrow> Inr ((), query_setObjectField c k field v))) = Inr (r, db')"
    for r db'
  proof -
    from that obtain k c where e: "ensureLegacyObjectType db k Hash = Inr c"
      and d: "db' = query_setObjectField c k field v"
      by (auto split: option.splits sum.splits)
    from documents_sorted_same[OF ensureLegacyObjectType_hash[OF e] assms]
    show ?thesis by (simp add: d query_setObjectField_sorted)
  qed
  show ?thesis
    using assms
    by (auto simp: setObjectField_def intro!: transaction_sorted elim: body)
qed

lemma deleteObjectFields_sorted:
  assumes "documents_sorted db"
  shows "documents_sorted (deleteObjectFields key dflds db)"
  using assms
  by (simp add: deleteObjectFields_def query_deleteObjectFields_sorted split: option.splits)

lemma incrObjectFieldBy_sorted:
  assumes "documents_sorted db"
  shows "documents_sorted (snd (incrObjectFieldBy cast karg field val db))"
proof -
  have body: "documents_sorted db'"
    if "(case karg of
           Keys ks \<Rightarrow>
             (case ensureLegacyObjectsType db ks Hash of
                Inl e \<Rightarrow> Inl e
              | Inr c \<Rightarrow>
                  (case numeric_param cast (parseInt val) of
                     Inl e \<Rightarrow> Inl e
                   | Inr n \<Rightarrow>
                       (case incr_rows cast c [] ks field n of
                          Inl e \<Rightarrow> Inl e
                        | Inr (vs, c') \<Rightarrow> Inr (IncrMany (map parseFloat vs), c'))))
         | Key k \<Rightarrow>
             (case ensureLegacyObjectType db k Hash of
                Inl e \<Rightarrow> Inl e
              | Inr c \<Rightarrow>
                  (case numeric_param cast (parseInt val) of
                     Inl e \<Rightarrow> Inl e
                   | Inr n \<Rightarrow>
                       (case incr_row cast c k field n of
                          Inl e \<Rightarrow> Inl e
                        | Inr (v, c') \<Rightarrow> Inr (IncrOne (parseFloat v), c'))))
         | KeyAbsent \<Rightarrow> Inl NotNullViolation) = Inr (r, db')"
    for r db'
  proof (cases karg)
    case KeyAbsent
    with that show ?thesis by simp
  next
    case (Key k)
    with that obtain c n v where e: "ensureLegacyObjectType db k Hash = Inr c"
      and i: "incr_row cast c k field n = Inr (v, db')"
      by (auto split: sum.splits)
    from incr_row_sorted[OF documents_sorted_same[OF ensureLegacyObjectType_hash[OF e] assms] i]
    show ?thesis .
  next
    case (Keys ks)
    with that obtain c n vs where e: "ensureLegacyObjectsType db ks Hash = Inr c"
      and i: "incr_rows cast c [] ks field n = Inr (vs, db')"
      by (auto split: sum.splits)
    from incr_rows_sorted[OF documents_sorted_same[OF ensureLegacyObjectsType_hash[OF e] assms] i]
    show ?thesis .
  qed
  show ?thesis
    using assms
    by (auto simp: incrObjectFieldBy_def intro!: transaction_sorted elim: body)
qed

text \<open>
  Every write of the adapter keeps the stored documents in canonical form; the empty
  database has it. So the documents of every state that the adapter reaches have one
  value per field name.
\<close>

lemma writes_keep_documents_sorted:
  assumes "documents_sorted db"
  shows "documents_sorted (snd (snd (setObject key data h db))) \<and>
         documents_sorted (snd (setObjectField key field v db)) \<and>
         documents_sorted (deleteObjectFields key dflds db) \<and>
         documents_sorted (snd (incrObjectFieldBy cast karg field val db))"
  using assms
  by (simp add: setObject_sorted setObjectField_sorted deleteObjectFields_sorted
      incrObjectFieldBy_sorted)

lemma empty_db_sorted: "documents_sorted empty_db"
  by (simp add: documents_sorted_def empty_db_def)

section \<open>Batch increment\<close>

text \<open>
  The multi-key statement touches the key \<open>k\<close> twice when the array names it twice,
  and PostgreSQL aborts it; the call fails instead of returning two values, whatever
  the server reads from strings.
\<close>

theorem incrObjectFieldBy_duplicate_key_fails:
  "\<forall>cast. fst (incrObjectFieldBy cast (Keys [''k'', ''k'']) ''n'' (DeltaNum (Num 5)) empty_db) =
     Inl CardinalityViolation"
proof
  fix cast
  have p: "parseInt (DeltaNum (Num 5)) = Num 5"
    using parseInt_safe_integer[of 5] by simp
  have d: "decimal_of_number 5 = 5"
    using decimal_of_number_int[of 5] by simp
  show "fst (incrObjectFieldBy cast (Keys [''k'', ''k'']) ''n'' (DeltaNum (Num 5)) empty_db) =
     Inl CardinalityViolation"
    by (simp add: incrObjectFieldBy_def falsy_key_arg_def transaction_def
        ensureLegacyObjectType_def empty_db_def incr_row_def incr_document_def
        jsonb_build_object_def jsonb_get_def p d del: parseInt.simps)
qed

text \<open>
  Claim C1, amended. \<^verbatim>\<open>incrObjectFieldBy\<close> is called with an array \<open>ks\<close> of keys, a
  field and a delta that \<^verbatim>\<open>parseInt\<close> reads as the finite number \<open>n\<close>.

  When the keys are pairwise distinct, none is registered under another type than
  hash, and the field of every key reads as a finite number (\<open>p k\<close> is the previous
  value of the key \<open>k\<close>, 0 when the key has no row, when the field is absent and when it
  holds \<^verbatim>\<open>null\<close>), the call registers every key as a hash, stores in the field of every
  key its previous value plus the delta as the statement receives it (the decimal that
  the number \<open>n\<close> prints as), and returns these sums, rounded to doubles by
  \<^verbatim>\<open>parseFloat\<close>, in the order of the array. When moreover \<open>n\<close> is an integer of
  magnitude below \<open>2 ^ 53\<close> and so is every sum, each result is exactly the previous
  value plus \<open>n\<close>.

  When the array names a key twice the call fails and writes nothing.
\<close>

theorem incrObjectFieldBy_batch:
  assumes "parseInt val = Num n"
  shows
    "(distinct ks \<longrightarrow>
      (\<forall>k\<in>set ks. legacy_object_live db k = None \<or> legacy_object_live db k = Some Hash) \<longrightarrow>
      (\<forall>k\<in>set ks. (legacy_hash db k = None \<and> p k = 0) \<or>
          (\<exists>d x. legacy_hash db k = Some d \<and> field_numeric cast (jsonb_get d field) = Inr x \<and>
                 coalesce0 x = Finite (p k))) \<longrightarrow>
        (\<exists>db'. incrObjectFieldBy cast (Keys ks) field val db =
                 (Inr (IncrMany (map (\<lambda>k. to_double (p k + decimal_of_number n)) ks)), db') \<and>
               (\<forall>k\<in>set ks. legacy_object_live db' k = Some Hash \<and>
                  (\<exists>d. legacy_hash db' k = Some d \<and>
                       map_of d field = Some (JNum (p k + decimal_of_number n))))) \<and>
        ((\<exists>i. n = of_int i \<and> \<bar>i\<bar> < 2 ^ 53) \<longrightarrow>
         (\<forall>k\<in>set ks. \<exists>j. p k + n = of_int j \<and> \<bar>j\<bar> < 2 ^ 53) \<longrightarrow>
           fst (incrObjectFieldBy cast (Keys ks) field val db) =
             Inr (IncrMany (map (\<lambda>k. Num (p k + n)) ks)))) \<and>
     (\<not> distinct ks \<longrightarrow> (\<exists>e. incrObjectFieldBy cast (Keys ks) field val db = (Inl e, db)))"
proof (intro conjI impI)
  assume dis: "distinct ks"
    and reg: "\<forall>k\<in>set ks. legacy_object_live db k = None \<or> legacy_object_live db k = Some Hash"
    and prev: "\<forall>k\<in>set ks. (legacy_hash db k = None \<and> p k = 0) \<or>
          (\<exists>d x. legacy_hash db k = Some d \<and> field_numeric cast (jsonb_get d field) = Inr x \<and>
                 coalesce0 x = Finite (p k))"
  from ensureLegacyObjectsType_ok[OF reg] obtain db1 where
    e: "ensureLegacyObjectsType db ks Hash = Inr db1" and h1: "legacy_hash db1 = legacy_hash db"
    and l1: "\<forall>k\<in>set ks. legacy_object_live db1 k = Some Hash"
    by blast
  have a: "\<forall>k\<in>set ks. (legacy_hash db1 k = None \<and> p k = 0) \<or>
             (\<exists>d x. legacy_hash db1 k = Some d \<and> field_numeric cast (jsonb_get d field) = Inr x \<and>
                    coalesce0 x = Finite (p k))"
    using prev by (simp add: h1)
  have "set ks \<inter> set [] = {}" by simp
  from incr_rows_ok[OF dis this a, of "decimal_of_number n"] obtain db' where
    i: "incr_rows cast db1 [] ks field (Finite (decimal_of_number n)) =
          Inr (map (\<lambda>k. Some (Finite (p k + decimal_of_number n))) ks, db')"
    and l: "legacy_object_live db' = legacy_object_live db1"
    and nw: "\<forall>k\<in>set ks. \<exists>d. legacy_hash db' k = Some d \<and>
               map_of d field = Some (JNum (p k + decimal_of_number n))"
    by blast
  have call: "incrObjectFieldBy cast (Keys ks) field val db =
          (Inr (IncrMany (map (\<lambda>k. to_double (p k + decimal_of_number n)) ks)), db')"
    by (simp add: incrObjectFieldBy_def assms falsy_key_arg_def transaction_def e i comp_def)
  then show "\<exists>db'. incrObjectFieldBy cast (Keys ks) field val db =
                 (Inr (IncrMany (map (\<lambda>k. to_double (p k + decimal_of_number n)) ks)), db') \<and>
               (\<forall>k\<in>set ks. legacy_object_live db' k = Some Hash \<and>
                  (\<exists>d. legacy_hash db' k = Some d \<and>
                       map_of d field = Some (JNum (p k + decimal_of_number n))))"
    using l l1 nw by auto
  assume safe_n: "\<exists>i. n = of_int i \<and> \<bar>i\<bar> < 2 ^ 53"
    and safe_sums: "\<forall>k\<in>set ks. \<exists>j. p k + n = of_int j \<and> \<bar>j\<bar> < 2 ^ 53"
  from safe_n have dn: "decimal_of_number n = n"
    by (auto simp: decimal_of_number_int)
  have "to_double (p k + n) = Num (p k + n)" if "k \<in> set ks" for k
  proof -
    from safe_sums that obtain j where "p k + n = of_int j" and "\<bar>j\<bar> < 2 ^ 53" by blast
    then show ?thesis using to_double_int[of j] by simp
  qed
  then have "map (\<lambda>k. to_double (p k + decimal_of_number n)) ks = map (\<lambda>k. Num (p k + n)) ks"
    by (simp add: dn)
  with call show "fst (incrObjectFieldBy cast (Keys ks) field val db) =
             Inr (IncrMany (map (\<lambda>k. Num (p k + n)) ks))"
    by simp
next
  assume nd: "\<not> distinct ks"
  have rows: "\<exists>e. incr_rows cast c [] ks field m = Inl e" for c m
  proof (cases "incr_rows cast c [] ks field m")
    case (Inl e)
    then show ?thesis by blast
  next
    case (Inr r)
    from incr_rows_distinct[OF this] nd show ?thesis by simp
  qed
  show "\<exists>e. incrObjectFieldBy cast (Keys ks) field val db = (Inl e, db)"
  proof (cases "ensureLegacyObjectsType db ks Hash")
    case (Inl e)
    then show ?thesis
      by (simp add: incrObjectFieldBy_def assms falsy_key_arg_def transaction_def)
  next
    case (Inr c)
    from rows[of c "Finite (decimal_of_number n)"] obtain e where
      "incr_rows cast c [] ks field (Finite (decimal_of_number n)) = Inl e" by blast
    with Inr show ?thesis
      by (simp add: incrObjectFieldBy_def assms falsy_key_arg_def transaction_def)
  qed
qed

text \<open>
  The example of the specification: \<open>k1\<close> holds 0 and \<open>k2\<close> is unset, the delta is 5,
  and the call returns \<^verbatim>\<open>[5, 5]\<close>; with \<open>k1\<close> named twice it fails.
\<close>

theorem incrObjectFieldBy_batch_witness:
  "\<forall>cast.
     fst (incrObjectFieldBy cast (Keys [''k1'', ''k2'']) ''n'' (DeltaNum (Num 5)) counters_db) =
       Inr (IncrMany [Num 5, Num 5]) \<and>
     (\<exists>e. incrObjectFieldBy cast (Keys [''k1'', ''k1'']) ''n'' (DeltaNum (Num 5)) counters_db =
            (Inl e, counters_db))"
proof
  fix cast
  have a1: "parseInt (DeltaNum (Num 5)) = Num 5"
    using parseInt_safe_integer[of 5] by simp
  have a2: "distinct [''k1'', ''k2'']" by simp
  have a3: "\<forall>k\<in>set [''k1'', ''k2''].
              legacy_object_live counters_db k = None \<or> legacy_object_live counters_db k = Some Hash"
    by (simp add: counters_db_def)
  have a4: "\<forall>k\<in>set [''k1'', ''k2''].
              (legacy_hash counters_db k = None \<and> (\<lambda>k. 0 :: rat) k = 0) \<or>
              (\<exists>d x. legacy_hash counters_db k = Some d \<and>
                     field_numeric cast (jsonb_get d ''n'') = Inr x \<and>
                     coalesce0 x = Finite ((\<lambda>k. 0 :: rat) k))"
    by (simp add: counters_db_def jsonb_get_def coalesce0_def)
  have a5: "\<exists>i. (5 :: rat) = of_int i \<and> \<bar>i\<bar> < 2 ^ 53"
    by (rule exI[of _ 5]) simp
  have a6: "\<forall>k\<in>set [''k1'', ''k2'']. \<exists>j. (\<lambda>k. 0 :: rat) k + 5 = of_int j \<and> \<bar>j\<bar> < 2 ^ 53"
    by (intro ballI exI[of _ 5]) simp
  have a7: "\<not> distinct [''k1'', ''k1'']" by simp
  note t = incrObjectFieldBy_batch[OF a1, where cast = cast and db = counters_db and field = "''n''"]
  from t[where ks = "[''k1'', ''k2'']" and p = "\<lambda>k. 0"] a2 a3 a4 a5 a6
  have "fst (incrObjectFieldBy cast (Keys [''k1'', ''k2'']) ''n'' (DeltaNum (Num 5)) counters_db) =
          Inr (IncrMany (map (\<lambda>k. Num (0 + 5)) [''k1'', ''k2'']))"
    by blast
  moreover from t[where ks = "[''k1'', ''k1'']" and p = "\<lambda>k. 0"] a7
  have "\<exists>e. incrObjectFieldBy cast (Keys [''k1'', ''k1'']) ''n'' (DeltaNum (Num 5)) counters_db =
            (Inl e, counters_db)"
    by blast
  ultimately show
    "fst (incrObjectFieldBy cast (Keys [''k1'', ''k2'']) ''n'' (DeltaNum (Num 5)) counters_db) =
       Inr (IncrMany [Num 5, Num 5]) \<and>
     (\<exists>e. incrObjectFieldBy cast (Keys [''k1'', ''k1'']) ''n'' (DeltaNum (Num 5)) counters_db =
            (Inl e, counters_db))"
    by simp
qed

text \<open>
  Three calls on one key that show the two conversions at work. The field holds
  \<open>2 ^ 53\<close> and the delta is 1: the document receives \<open>2 ^ 53 + 1\<close> and the call
  returns \<open>2 ^ 53\<close>, the double that \<^verbatim>\<open>parseFloat\<close> makes of it.
\<close>

lemma incrObjectFieldBy_result_is_a_double:
  "incrObjectFieldBy cast (Keys [''k'']) ''n'' (DeltaNum (Num 1)) large_counter_db =
     (Inr (IncrMany [Num (2 ^ 53)]),
      \<lparr>legacy_object_live = (\<lambda>k. None)(''k'' \<mapsto> Hash),
       legacy_hash = (\<lambda>k. None)(''k'' \<mapsto> [(''n'', JNum (2 ^ 53 + 1))])\<rparr>)"
proof -
  have p: "parseInt (DeltaNum (Num 1)) = Num 1"
    using parseInt_safe_integer[of 1] by simp
  have d: "decimal_of_number 1 = 1"
    using decimal_of_number_int[of 1] by simp
  show ?thesis
    using to_double_tie
    by (simp add: incrObjectFieldBy_def falsy_key_arg_def transaction_def
        ensureLegacyObjectType_def large_counter_db_def incr_row_def incr_document_def
        jsonb_get_def coalesce0_def p d del: parseInt.simps)
qed

text \<open>
  The delta is the number \<open>10 ^ 21\<close>: \<^verbatim>\<open>parseInt\<close> reads 1 from its string, and the
  field of the unset key becomes 1.
\<close>

lemma incrObjectFieldBy_delta_is_read_as_text:
  "incrObjectFieldBy cast (Keys [''k'']) ''n'' (DeltaNum (Num (10 ^ 21))) empty_db =
     (Inr (IncrMany [Num 1]),
      \<lparr>legacy_object_live = (\<lambda>k. None)(''k'' \<mapsto> Hash),
       legacy_hash = (\<lambda>k. None)(''k'' \<mapsto> [(''n'', JNum 1)])\<rparr>)"
proof -
  have d: "decimal_of_number 1 = 1"
    using decimal_of_number_int[of 1] by simp
  have r: "to_double 1 = Num 1"
    using to_double_int[of 1] by simp
  have p: "parseInt (DeltaNum (Num 1000000000000000000000)) = Num 1"
    using parseInt_sextillion by simp
  show ?thesis
    by (simp add: incrObjectFieldBy_def falsy_key_arg_def transaction_def
        ensureLegacyObjectType_def empty_db_def incr_row_def incr_document_def
        jsonb_build_object_def jsonb_get_def p d r del: parseInt.simps)
qed

text \<open>
  The field holds the string \<^verbatim>\<open>"1e2"\<close> and the delta is 2: on a server whose
  \<^verbatim>\<open>NUMERIC\<close> reads that string as 100, the field becomes the number 102.
\<close>

lemma incrObjectFieldBy_stored_text:
  assumes "cast ''1e2'' = Some (Finite 100)"
  shows "incrObjectFieldBy cast (Keys [''k'']) ''n'' (DeltaNum (Num 2)) text_counter_db =
     (Inr (IncrMany [Num 102]),
      \<lparr>legacy_object_live = (\<lambda>k. None)(''k'' \<mapsto> Hash),
       legacy_hash = (\<lambda>k. None)(''k'' \<mapsto> [(''n'', JNum 102)])\<rparr>)"
proof -
  have p: "parseInt (DeltaNum (Num 2)) = Num 2"
    using parseInt_safe_integer[of 2] by simp
  have d: "decimal_of_number 2 = 2"
    using decimal_of_number_int[of 2] by simp
  have r: "to_double 102 = Num 102"
    using to_double_int[of 102] by simp
  show ?thesis
    using assms
    by (simp add: incrObjectFieldBy_def falsy_key_arg_def transaction_def
        ensureLegacyObjectType_def text_counter_db_def incr_row_def incr_document_def
        jsonb_get_def coalesce0_def p d r del: parseInt.simps)
qed

section \<open>Field presence\<close>

lemma isObjectField_value:
  "\<not> falsy key \<Longrightarrow>
   isObjectField key field db =
     Some (case getObject key db of
             None \<Rightarrow> False
           | Some d \<Rightarrow> (case map_of d field of None \<Rightarrow> False | Some v \<Rightarrow> v \<noteq> JNull))"
  by (auto simp: falsy_def isObjectField_def getObject_def hash_rows_cases
        jsonb_exists_dom jsonb_get_def text_is_null_iff
        split: option.splits)

lemma isObjectFields_value:
  "\<not> falsy key \<Longrightarrow>
   isObjectFields key flds db =
     Some (map (\<lambda>f. case getObject key db of
                      None \<Rightarrow> False
                    | Some d \<Rightarrow> (case map_of d f of None \<Rightarrow> False | Some v \<Rightarrow> v \<noteq> JNull)) flds)"
  apply (cases key)
   apply (simp add: falsy_def)
  apply (auto simp: falsy_def isObjectFields_def getObjectFields_def getObject_def hash_rows_cases
        jsonb_get_def jsonb_object_agg_def hasOwnProperty_dom map_of_agg_fold map_of_all_null
        split: option.splits)
  done

lemma isObjectField_falsy: "falsy key \<Longrightarrow> isObjectField key field db = None"
  by (auto simp: falsy_def isObjectField_def split: option.splits)

text \<open>
  Claim C2. \<^verbatim>\<open>isObjectField(key, field)\<close> answers true only if the field is present in
  the hash document of the key with a value other than \<^verbatim>\<open>null\<close> (and, for a key that
  is supplied, whenever it is). For a supplied key it answers false when the key has no
  document, when the field is missing and when the field holds \<^verbatim>\<open>null\<close>;
  \<^verbatim>\<open>isObjectFields(key, fields)\<close> answers one such boolean per requested field, in the
  order of the fields, and all false when the key has no document.
\<close>

theorem isObjectField_present_non_null:
  "(isObjectField key field db = Some True \<longrightarrow>
      (\<exists>d v. getObject key db = Some d \<and> map_of d field = Some v \<and> v \<noteq> JNull)) \<and>
   (\<not> falsy key \<longrightarrow>
      (\<forall>d v. getObject key db = Some d \<longrightarrow> map_of d field = Some v \<longrightarrow> v \<noteq> JNull \<longrightarrow>
         isObjectField key field db = Some True) \<and>
      (getObject key db = None \<longrightarrow> isObjectField key field db = Some False) \<and>
      (\<forall>d. getObject key db = Some d \<longrightarrow> map_of d field = None \<longrightarrow>
         isObjectField key field db = Some False) \<and>
      (\<forall>d. getObject key db = Some d \<longrightarrow> map_of d field = Some JNull \<longrightarrow>
         isObjectField key field db = Some False) \<and>
      isObjectFields key flds db = Some (map (\<lambda>f. isObjectField key f db = Some True) flds) \<and>
      (getObject key db = None \<longrightarrow> isObjectFields key flds db = Some (map (\<lambda>f. False) flds)))"
proof (cases "falsy key")
  case True
  then show ?thesis by (simp add: isObjectField_falsy)
next
  case False
  show ?thesis
    using False
    by (auto simp: isObjectField_value isObjectFields_value split: option.splits)
qed

theorem isObjectField_present_non_null_witness:
  "isObjectField (Some ''k'') ''a'' example_db = Some True \<and>
   isObjectField (Some ''k'') ''b'' example_db = Some False \<and>
   isObjectField (Some ''k'') ''c'' example_db = Some False \<and>
   isObjectField (Some ''j'') ''a'' example_db = Some False \<and>
   isObjectFields (Some ''k'') [''c'', ''a'', ''b''] example_db = Some [False, True, False] \<and>
   isObjectFields (Some ''j'') [''a'', ''b''] example_db = Some [False, False]"
  using isObjectField_present_non_null[of "Some ''k''" "''a''" example_db "[''c'', ''a'', ''b'']"]
        isObjectField_present_non_null[of "Some ''k''" "''b''" example_db "[]"]
        isObjectField_present_non_null[of "Some ''k''" "''c''" example_db "[]"]
        isObjectField_present_non_null[of "Some ''j''" "''a''" example_db "[''a'', ''b'']"]
        isObjectField_present_non_null[of "Some ''j''" "''b''" example_db "[]"]
  by (auto simp: falsy_def getObject_def hash_rows_def example_db_def)

section \<open>Merging with setObject\<close>




section \<open>Order of getObjects\<close>

text \<open>
  Claim C4. For an array of keys, \<^verbatim>\<open>getObjects(keys)\<close> returns one result per
  element, at the position of the element: the document of that key when the key is
  registered as a hash, and \<^verbatim>\<open>null\<close> when the key is missing or registered otherwise.
  A key named twice gets its result twice; nothing is reordered or dropped, in
  whatever order the joins deliver the rows.
\<close>

theorem getObjects_positional:
  assumes "\<forall>rows. mset (phys rows) = mset rows"
  shows "getObjects phys (Some keys) db =
           map (\<lambda>k. if legacy_object_live db k = Some Hash then legacy_hash db k else None) keys"
proof (cases "keys = []")
  case True
  then show ?thesis by (simp add: getObjects_def)
next
  case False
  let ?rows = "map (\<lambda>ki. (snd ki, left_join_hash db (fst ki))) (with_ordinality keys)"
  have "sort_key fst (phys ?rows) = ?rows"
    using assms by (intro sort_key_rearranged) (simp_all only: map_fst_tagged distinct_upt sorted_upt)
  then have "getObjects phys (Some keys) db = map (left_join_hash db) keys"
    using False by (simp add: getObjects_def map_snd_tagged del: map_map)
  moreover have "left_join_hash db =
      (\<lambda>k. if legacy_object_live db k = Some Hash then legacy_hash db k else None)"
    by (auto simp: left_join_hash_def hash_rows_cases fun_eq_iff split: option.splits)
  ultimately show ?thesis by simp
qed

text \<open>
  The example of the specification, with the rows delivered in reverse:
  \<^verbatim>\<open>getObjects([k, j, k])\<close> answers for \<open>k\<close>, \<open>j\<close> and \<open>k\<close> in that order.
\<close>

theorem getObjects_positional_witness:
  "getObjects rev (Some [''k'', ''j'', ''k'']) example_db =
     [Some [(''a'', JNum 1), (''b'', JNull)], None, Some [(''a'', JNum 1), (''b'', JNull)]]"
proof -
  have "\<forall>rows :: (nat \<times> jsonb option) list. mset (rev rows) = mset rows" by simp
  from getObjects_positional[OF this, of "[''k'', ''j'', ''k'']" example_db]
  show ?thesis by (simp add: example_db_def)
qed

section \<open>Projection with getObjectFields\<close>

text \<open>
  Claim C5. \<^verbatim>\<open>getObjectFields(key, fields)\<close> returns a mapping whose keys are exactly
  the requested field names, for a key with a hash document and for a key without
  one. The code does not do this: for a key that has a document, a request for no
  field at all is answered with \<^verbatim>\<open>null\<close>, because the aggregate over no row is
  \<^verbatim>\<open>NULL\<close> and nothing replaces it; for a key without a document the same request
  is answered with the empty mapping.
\<close>

theorem getObjectFields_no_fields_null:
  "getObjectFields (Some ''k'') [] example_db = None \<and>
   getObjectFields (Some ''j'') [] example_db = Some []"
  by (simp add: getObjectFields_def hash_rows_def example_db_def jsonb_object_agg_def)

text \<open>
  What the code does do. For a supplied key without a hash document, the result is the
  mapping of every requested field to \<^verbatim>\<open>null\<close>, where \<^verbatim>\<open>getObject\<close> returns \<^verbatim>\<open>null\<close>.
  For a supplied key with a document and at least one requested field, the result is a
  mapping whose keys are exactly the requested field names, with \<^verbatim>\<open>null\<close> for any
  requested field absent from the document.
\<close>

lemma getObjectFields_requested_names:
  assumes "k \<noteq> []"
  shows "(legacy_object_live db k \<noteq> Some Hash \<or> legacy_hash db k = None \<longrightarrow>
            getObject (Some k) db = None \<and>
            (\<exists>m. getObjectFields (Some k) flds db = Some m \<and> fst ` set m = set flds \<and>
                 (\<forall>f\<in>set flds. map_of m f = Some JNull))) \<and>
         (\<forall>d. legacy_object_live db k = Some Hash \<longrightarrow> legacy_hash db k = Some d \<longrightarrow> flds \<noteq> [] \<longrightarrow>
            getObject (Some k) db = Some d \<and>
            (\<exists>m. getObjectFields (Some k) flds db = Some m \<and> fst ` set m = set flds \<and>
                 (\<forall>f\<in>set flds. map_of m f =
                    Some (case map_of d f of None \<Rightarrow> JNull | Some v \<Rightarrow> v))))"
proof -
  let ?nulls = "foldl (\<lambda>obj f. set_property obj f JNull) [] flds"
  have missing: "\<exists>m. getObjectFields (Some k) flds db = Some m \<and> fst ` set m = set flds \<and>
                 (\<forall>f\<in>set flds. map_of m f = Some JNull)"
    if "hash_rows db k = []"
  proof -
    have "getObjectFields (Some k) flds db = Some ?nulls"
      using assms that by (simp add: getObjectFields_def)
    moreover have "fst ` set ?nulls = set flds"
      by (rule keys_from_lookup) (simp add: map_of_all_null)
    moreover have "\<forall>f\<in>set flds. map_of ?nulls f = Some JNull"
      by (simp add: map_of_all_null)
    ultimately show ?thesis by blast
  qed
  have present: "\<exists>m. getObjectFields (Some k) flds db = Some m \<and> fst ` set m = set flds \<and>
                 (\<forall>f\<in>set flds. map_of m f = Some (case map_of d f of None \<Rightarrow> JNull | Some v \<Rightarrow> v))"
    if "hash_rows db k = [d]" and "flds \<noteq> []" for d
  proof -
    let ?m = "foldl (\<lambda>d r. jsonb_put (fst r) (case snd r of None \<Rightarrow> JNull | Some v \<Rightarrow> v) d) []
                (map (\<lambda>f. (f, jsonb_get d f)) flds)"
    have "getObjectFields (Some k) flds db = Some ?m"
      using assms that by (simp add: getObjectFields_def jsonb_object_agg_def)
    moreover have "fst ` set ?m = set flds"
      by (rule keys_from_lookup) (simp add: map_of_agg_fold)
    moreover have "\<forall>f\<in>set flds. map_of ?m f = Some (case map_of d f of None \<Rightarrow> JNull | Some v \<Rightarrow> v)"
      by (simp add: map_of_agg_fold jsonb_get_def)
    ultimately show ?thesis by blast
  qed
  have rows: "hash_rows db k =
      (if legacy_object_live db k = Some Hash
       then (case legacy_hash db k of None \<Rightarrow> [] | Some d \<Rightarrow> [d]) else [])"
    by (rule hash_rows_cases)
  have c1: "legacy_object_live db k \<noteq> Some Hash \<or> legacy_hash db k = None \<longrightarrow>
            getObject (Some k) db = None \<and>
            (\<exists>m. getObjectFields (Some k) flds db = Some m \<and> fst ` set m = set flds \<and>
                 (\<forall>f\<in>set flds. map_of m f = Some JNull))"
  proof
    assume "legacy_object_live db k \<noteq> Some Hash \<or> legacy_hash db k = None"
    then have "hash_rows db k = []" by (auto simp: rows)
    then show "getObject (Some k) db = None \<and>
            (\<exists>m. getObjectFields (Some k) flds db = Some m \<and> fst ` set m = set flds \<and>
                 (\<forall>f\<in>set flds. map_of m f = Some JNull))"
      using missing assms by (simp add: getObject_def)
  qed
  have c2: "\<forall>d. legacy_object_live db k = Some Hash \<longrightarrow> legacy_hash db k = Some d \<longrightarrow> flds \<noteq> [] \<longrightarrow>
            getObject (Some k) db = Some d \<and>
            (\<exists>m. getObjectFields (Some k) flds db = Some m \<and> fst ` set m = set flds \<and>
                 (\<forall>f\<in>set flds. map_of m f =
                    Some (case map_of d f of None \<Rightarrow> JNull | Some v \<Rightarrow> v)))"
  proof (intro allI impI)
    fix d assume "legacy_object_live db k = Some Hash" "legacy_hash db k = Some d" "flds \<noteq> []"
    then have r: "hash_rows db k = [d]" by (simp add: rows)
    show "getObject (Some k) db = Some d \<and>
            (\<exists>m. getObjectFields (Some k) flds db = Some m \<and> fst ` set m = set flds \<and>
                 (\<forall>f\<in>set flds. map_of m f =
                    Some (case map_of d f of None \<Rightarrow> JNull | Some v \<Rightarrow> v)))"
      using present[OF r \<open>flds \<noteq> []\<close>] r assms by (simp add: getObject_def)
  qed
  show ?thesis using c1 c2 by blast
qed

text \<open>
  In the example state the key \<open>j\<close> was never written and the key \<open>k\<close> holds
  \<^verbatim>\<open>{"a": 1, "b": null}\<close>.
\<close>

lemma getObjectFields_requested_names_example:
  "getObject (Some ''j'') example_db = None \<and>
   (\<exists>m. getObjectFields (Some ''j'') [''f''] example_db = Some m \<and> fst ` set m = {''f''} \<and>
        map_of m ''f'' = Some JNull) \<and>
   (\<exists>m. getObjectFields (Some ''k'') [''c'', ''a''] example_db = Some m \<and>
        fst ` set m = {''c'', ''a''} \<and> map_of m ''c'' = Some JNull \<and> map_of m ''a'' = Some (JNum 1))"
proof -
  have j: "''j'' \<noteq> []" and k: "''k'' \<noteq> []" by simp_all
  have nj: "legacy_object_live example_db ''j'' \<noteq> Some Hash \<or> legacy_hash example_db ''j'' = None"
    by (simp add: example_db_def)
  have rk: "legacy_object_live example_db ''k'' = Some Hash"
    and dk: "legacy_hash example_db ''k'' = Some [(''a'', JNum 1), (''b'', JNull)]"
    by (simp_all add: example_db_def)
  have ne: "[''c'', ''a''] \<noteq> []" by simp
  from getObjectFields_requested_names[OF j, of example_db "[''f'']"] nj
  have p1: "getObject (Some ''j'') example_db = None \<and>
      (\<exists>m. getObjectFields (Some ''j'') [''f''] example_db = Some m \<and> fst ` set m = set [''f''] \<and>
           (\<forall>f\<in>set [''f'']. map_of m f = Some JNull))"
    by blast
  from getObjectFields_requested_names[OF k, of example_db "[''c'', ''a'']"] rk dk ne
  have p2: "\<exists>m. getObjectFields (Some ''k'') [''c'', ''a''] example_db = Some m \<and>
        fst ` set m = set [''c'', ''a''] \<and>
        (\<forall>f\<in>set [''c'', ''a'']. map_of m f =
            Some (case map_of [(''a'', JNum 1), (''b'', JNull)] f of None \<Rightarrow> JNull | Some v \<Rightarrow> v))"
    by blast
  from p1 p2 show ?thesis by auto
qed

section \<open>Invalid arguments\<close>

text \<open>
  The guards that are there: a falsy key makes \<^verbatim>\<open>setObject\<close>, the reads,
  \<^verbatim>\<open>deleteObjectFields\<close> and \<^verbatim>\<open>incrObjectFieldBy\<close> return at once, as do an empty
  field name in \<^verbatim>\<open>setObjectField\<close> and a delta that is not a number in
  \<^verbatim>\<open>incrObjectFieldBy\<close>; nothing is written.
\<close>

lemma guarded_calls_write_nothing:
  "falsy key \<Longrightarrow> setObject key data h db = (Inr (), h, db)"
  "falsy key \<Longrightarrow> getObject key db = None"
  "falsy key \<Longrightarrow> getObjectFields key flds db = None"
  "falsy key \<Longrightarrow> getObjectKeys key db = None"
  "falsy key \<Longrightarrow> isObjectFields key flds db = None"
  "falsy key \<Longrightarrow> deleteObjectFields key dflds db = db"
  "setObjectField key [] v db = (Inr (), db)"
  "falsy_key_arg karg \<Longrightarrow> incrObjectFieldBy cast karg field val db = (Inr IncrNull, db)"
  "parseInt val = NaN \<Longrightarrow> incrObjectFieldBy cast karg field val db = (Inr IncrNull, db)"
  by (auto simp: falsy_def setObject_def getObject_def getObjectFields_def getObjectKeys_def
        isObjectFields_def deleteObjectFields_def setObjectField_def incrObjectFieldBy_def
        split: option.splits)

text \<open>
  Claim C6. An operation given an invalid argument performs no write and returns a
  default value; in particular \<^verbatim>\<open>setObjectField\<close> with an empty key performs no write.
  The code does not do this: \<^verbatim>\<open>setObjectField\<close> tests the field only, and
  \<^verbatim>\<open>setObjectField('', 'f', 1)\<close> on the empty database registers the empty key as a
  hash and stores the document \<^verbatim>\<open>{"f": 1}\<close> under it.
\<close>

theorem setObjectField_empty_key_writes:
  "setObjectField (Some []) ''f'' (JNum 1) empty_db =
     (Inr (), \<lparr>legacy_object_live = (\<lambda>k. None)([] \<mapsto> Hash),
               legacy_hash = (\<lambda>k. None)([] \<mapsto> [(''f'', JNum 1)])\<rparr>)"
  by (simp add: setObjectField_def transaction_def ensureLegacyObjectType_def empty_db_def
      query_setObjectField_def jsonb_build_object_def)

text \<open>
  Likewise \<^verbatim>\<open>incrObjectFieldBy\<close> does not test the field name, and writes a field
  with the empty name.
\<close>

lemma incrObjectFieldBy_empty_field_writes:
  "incrObjectFieldBy cast (Key ''k'') [] (DeltaNum (Num 1)) empty_db =
     (Inr (IncrOne (Num 1)), \<lparr>legacy_object_live = (\<lambda>k. None)(''k'' \<mapsto> Hash),
                               legacy_hash = (\<lambda>k. None)(''k'' \<mapsto> [([], JNum 1)])\<rparr>)"
proof -
  have p: "parseInt (DeltaNum (Num 1)) = Num 1"
    using parseInt_safe_integer[of 1] by simp
  have d: "decimal_of_number 1 = 1"
    using decimal_of_number_int[of 1] by simp
  have r: "to_double 1 = Num 1"
    using to_double_int[of 1] by simp
  show ?thesis
    by (simp add: incrObjectFieldBy_def falsy_key_arg_def transaction_def
        ensureLegacyObjectType_def empty_db_def incr_row_def incr_document_def
        jsonb_build_object_def jsonb_get_def p d r del: parseInt.simps)
qed

section \<open>Deleting fields\<close>

text \<open>
  Claim C7. \<^verbatim>\<open>deleteObjectFields(key, fields)\<close>, for a supplied key with a document
  and a non-empty array of fields, removes exactly the named fields: the new document
  holds the remaining fields with their values and no named field. When no field
  remains the document is the empty object; the type registration is left as it was,
  and so are the other keys. When the key is registered as a hash and the named fields
  were all it had, \<^verbatim>\<open>getObjectKeys(key)\<close> is \<^verbatim>\<open>[]\<close> and \<^verbatim>\<open>getObject(key)\<close> is \<^verbatim>\<open>{}\<close>
  afterwards.
\<close>

theorem deleteObjectFields_removes_named:
  assumes "k \<noteq> []" and "flds \<noteq> []" and "legacy_hash db k = Some d" and "distinct (map fst d)"
  shows "legacy_object_live (deleteObjectFields (Some k) (Some flds) db) = legacy_object_live db \<and>
         (\<forall>k'. k' \<noteq> k \<longrightarrow>
            legacy_hash (deleteObjectFields (Some k) (Some flds) db) k' = legacy_hash db k') \<and>
         (\<exists>d'. legacy_hash (deleteObjectFields (Some k) (Some flds) db) k = Some d' \<and>
               map_of d' = map_of d |` (- set flds) \<and>
               (fst ` set d \<subseteq> set flds \<longrightarrow> d' = [])) \<and>
         (legacy_object_live db k = Some Hash \<longrightarrow> fst ` set d \<subseteq> set flds \<longrightarrow>
            getObjectKeys (Some k) (deleteObjectFields (Some k) (Some flds) db) = Some [] \<and>
            getObject (Some k) (deleteObjectFields (Some k) (Some flds) db) = Some [])"
proof -
  let ?d' = "case jsonb_object_agg
                    (map (\<lambda>p. (fst p, Some (snd p))) (filter (\<lambda>p. fst p \<notin> set flds) d)) of
               None \<Rightarrow> [] | Some d' \<Rightarrow> d'"
  have db': "deleteObjectFields (Some k) (Some flds) db =
               db\<lparr>legacy_hash := (legacy_hash db)(k \<mapsto> ?d')\<rparr>"
    using assms(1-3) by (simp add: deleteObjectFields_def query_deleteObjectFields_def)
  have m: "map_of ?d' = map_of d |` (- set flds)"
    by (rule remaining_after_delete[OF assms(4)])
  have e: "?d' = []" if "fst ` set d \<subseteq> set flds"
  proof -
    from that have "filter (\<lambda>p. fst p \<notin> set flds) d = []"
      by (auto simp: filter_empty_conv)
    then show "?d' = []" by (simp add: jsonb_object_agg_def)
  qed
  show ?thesis
    using m e
    by (auto simp: db' getObjectKeys_def getObject_def hash_rows_cases assms(1) jsonb_object_keys_def)
qed

text \<open>
  Deleting the field \<open>a\<close> from \<^verbatim>\<open>{"a": 1, "b": null}\<close> leaves \<open>b\<close>; deleting \<open>a\<close> and
  \<open>b\<close> leaves the empty document under a key that is still registered.
\<close>

theorem deleteObjectFields_removes_named_witness:
  "legacy_hash (deleteObjectFields (Some ''k'') (Some [''a'']) example_db) ''k'' = Some [(''b'', JNull)] \<and>
   legacy_object_live (deleteObjectFields (Some ''k'') (Some [''b'', ''a'']) example_db) ''k'' = Some Hash \<and>
   getObjectKeys (Some ''k'') (deleteObjectFields (Some ''k'') (Some [''b'', ''a'']) example_db) = Some [] \<and>
   getObject (Some ''k'') (deleteObjectFields (Some ''k'') (Some [''b'', ''a'']) example_db) = Some []"
proof -
  have k: "''k'' \<noteq> []" and f: "[''b'', ''a''] \<noteq> []" by simp_all
  have d: "legacy_hash example_db ''k'' = Some [(''a'', JNum 1), (''b'', JNull)]"
    and r: "legacy_object_live example_db ''k'' = Some Hash"
    by (simp_all add: example_db_def)
  have dis: "distinct (map fst [(''a'', JNum 1), (''b'', JNull)])" by simp
  have sub: "fst ` set [(''a'', JNum 1), (''b'', JNull)] \<subseteq> set [''b'', ''a'']" by simp
  have one: "legacy_hash (deleteObjectFields (Some ''k'') (Some [''a'']) example_db) ''k'' =
               Some [(''b'', JNull)]"
    by (simp add: deleteObjectFields_def query_deleteObjectFields_def example_db_def
        jsonb_object_agg_def)
  from deleteObjectFields_removes_named[OF k f d dis] r sub one show ?thesis by simp
qed

section \<open>The names of the fields\<close>

text \<open>
  Claim C8. \<^verbatim>\<open>getObjectKeys(key)\<close> returns the sequence of the field names of the
  document of the key; the empty sequence when the key is supplied and has no hash
  document; and \<^verbatim>\<open>undefined\<close>, which is not a sequence, when the key itself is empty
  or absent.
\<close>

theorem getObjectKeys_unset_or_names:
  "(falsy key \<longrightarrow> getObjectKeys key db = None) \<and>
   (\<not> falsy key \<longrightarrow> getObject key db = None \<longrightarrow> getObjectKeys key db = Some []) \<and>
   (\<forall>d. getObject key db = Some d \<longrightarrow> getObjectKeys key db = Some (map fst d))"
  by (auto simp: falsy_def getObjectKeys_def getObject_def jsonb_object_keys_def
           split: option.splits list.splits if_splits)

theorem getObjectKeys_unset_or_names_witness:
  "getObjectKeys None example_db = None \<and>
   getObjectKeys (Some []) example_db = None \<and>
   getObjectKeys (Some ''j'') example_db = Some [] \<and>
   getObjectKeys (Some ''k'') example_db = Some [''a'', ''b'']"
  using getObjectKeys_unset_or_names[of None example_db]
        getObjectKeys_unset_or_names[of "Some []" example_db]
        getObjectKeys_unset_or_names[of "Some ''j''" example_db]
        getObjectKeys_unset_or_names[of "Some ''k''" example_db]
  by (simp add: falsy_def getObject_def hash_rows_def example_db_def)

section \<open>The caller's object\<close>

text \<open>
  Claim C10. \<^verbatim>\<open>setObject\<close> changes the object of its caller: called with a supplied
  key and an object that has a field with the empty name, it deletes that property
  from the caller's object in place, whatever becomes of the write, so that afterwards
  the object has no such property and its other properties are as before; an object
  without that field is left as it was, as is every other object.
\<close>

theorem setObject_strips_in_place:
  "(\<not> falsy key \<longrightarrow>
      fst (snd (setObject key (Some a) h db)) = h(a := delete_property (h a) []) \<and>
      \<not> hasOwnProperty (fst (snd (setObject key (Some a) h db)) a) [] \<and>
      (\<forall>f. f \<noteq> [] \<longrightarrow> map_of (fst (snd (setObject key (Some a) h db)) a) f = map_of (h a) f)) \<and>
   (\<not> hasOwnProperty (h a) [] \<longrightarrow> fst (snd (setObject key (Some a) h db)) = h)"
proof (intro conjI impI)
  assume k: "\<not> falsy key"
  then show h': "fst (snd (setObject key (Some a) h db)) = h(a := delete_property (h a) [])"
    by (simp add: setObject_heap)
  show "\<not> hasOwnProperty (fst (snd (setObject key (Some a) h db)) a) []"
    by (simp add: h' hasOwnProperty_dom map_of_delete_property)
  show "\<forall>f. f \<noteq> [] \<longrightarrow> map_of (fst (snd (setObject key (Some a) h db)) a) f = map_of (h a) f"
    by (simp add: h' map_of_delete_property)
next
  assume "\<not> hasOwnProperty (h a) []"
  then have "delete_property (h a) [] = h a" by (rule delete_property_absent)
  then show "fst (snd (setObject key (Some a) h db)) = h"
    by (simp add: setObject_heap)
qed

text \<open>
  The object \<^verbatim>\<open>{"": 1, c: 3}\<close> at address 2 is \<^verbatim>\<open>{c: 3}\<close> after the call, and what
  is stored is \<^verbatim>\<open>{"c": 3}\<close>; the object \<^verbatim>\<open>{a: 1}\<close> at address 0 is not changed by a
  call on it.
\<close>

theorem setObject_strips_in_place_witness:
  "fst (snd (setObject (Some ''k'') (Some 2) example_heap empty_db)) 2 = [(''c'', JNum 3)] \<and>
   getObject (Some ''k'') (snd (snd (setObject (Some ''k'') (Some 2) example_heap empty_db))) =
     Some [(''c'', JNum 3)] \<and>
   fst (snd (setObject (Some ''k'') (Some 0) example_heap empty_db)) = example_heap"
proof -
  have k: "\<not> falsy (Some ''k'')" by (simp add: falsy_def)
  have n: "\<not> hasOwnProperty (example_heap 0) []"
    by (simp add: hasOwnProperty_def example_heap_def)
  have s: "getObject (Some ''k'') (snd (snd (setObject (Some ''k'') (Some 2) example_heap empty_db))) =
     Some [(''c'', JNum 3)]"
    by (simp add: setObject_def transaction_def ensureLegacyObjectType_def
        hasOwnProperty_def delete_property_def example_heap_def empty_db_def query_setObject_def
        getObject_def hash_rows_def jsonb_of_object_def)
  from setObject_strips_in_place[of "Some ''k''" 2 example_heap empty_db] k
  have h2: "fst (snd (setObject (Some ''k'') (Some 2) example_heap empty_db)) =
              example_heap(2 := delete_property (example_heap 2) [])"
    by blast
  from setObject_strips_in_place[of "Some ''k''" 0 example_heap empty_db] n
  have h0: "fst (snd (setObject (Some ''k'') (Some 0) example_heap empty_db)) = example_heap"
    by blast
  have "delete_property (example_heap 2) [] = [(''c'', JNum 3)]"
    by (simp add: delete_property_def example_heap_def)
  with h2 h0 s show ?thesis by simp
qed

end
